theory Spec2Isabelle
  imports Complex_Main "HOL-Library.Sublist"
begin

section \<open>Data model\<close>

text \<open>
  The development embeds the decoding part of \<^verbatim>\<open>algorithms/lm_fused_rnn.py\<close>:
  the attention step and the two decoder entry points of class \<^verbatim>\<open>Decoder\<close>, the
  language-model step of class \<^verbatim>\<open>LMDecoder\<close>, and the three beam searches and the
  LM heuristic of class \<^verbatim>\<open>Seq2SeqLMFusion\<close>.

  Conventions of the embedding.
  \<^item> Tensor entries are real numbers; rounding of the floating-point hardware is not
    modelled. A one-dimensional tensor is a list of reals.
  \<^item> Every inference procedure of the source fixes \<^verbatim>\<open>batch_size = 1\<close>. The model
    is the single batch element: a tensor of shape \<^verbatim>\<open>(1, n)\<close> is a list of length
    \<^verbatim>\<open>n\<close>, a recurrent state of shape \<^verbatim>\<open>(layers, 1, hidden)\<close> is the list of its
    layer vectors, an encoder output of shape \<^verbatim>\<open>(1, positions, dim)\<close> is the list
    of its position vectors.
  \<^item> The learned modules (\<^verbatim>\<open>nn.Embedding\<close>, \<^verbatim>\<open>nn.GRU\<close>/\<^verbatim>\<open>nn.LSTM\<close>,
    \<^verbatim>\<open>nn.Linear\<close> stacks) are parameters of the model: fields of the records below,
    taken as functions on these lists. A module that a path uses is taken to have been
    constructed (\<^verbatim>\<open>fc\<close> without \<^verbatim>\<open>for_deep_fusion\<close>, \<^verbatim>\<open>lm_ctrl\<close> and
    \<^verbatim>\<open>dffc\<close> with it). Failures inside a module (a token outside an embedding
    table, an input of the wrong shape, an empty input of the encoder) are not modelled.
  \<^item> Every exception the source can raise on its own account (its \<^verbatim>\<open>raise\<close> and
    \<^verbatim>\<open>assert\<close>, indexing, division, \<^verbatim>\<open>topk\<close>, tensor addition, a call on
    \<^verbatim>\<open>None\<close>) is a value \<open>Inl e\<close>.
\<close>

type_synonym token = nat
type_synonym vec = "real list"

datatype error =
    IndexError
  | RuntimeError
  | TypeError
  | AttributeError
  | AssertionError
  | ZeroDivisionError
  | NoAttentionNoHidden

text \<open>
  The recurrent state: one tensor for a GRU, the tuple \<^verbatim>\<open>(h_n, c_n)\<close> for an LSTM.
  \<^verbatim>\<open>hidden[0]\<close> of the tuple is \<open>h_n\<close>, \<^verbatim>\<open>hidden[1]\<close> is \<open>c_n\<close>.
\<close>

datatype rstate = Single "vec list" | Pair "vec list" "vec list"

datatype rnn_type = gru | lstm

record decoder =
  dec_rnn_type :: rnn_type
  dec_layers :: nat
  dec_hidden_dim :: nat
  use_attention :: bool
  embedding :: "token \<Rightarrow> vec"
  dec_rnn :: "vec \<Rightarrow> rstate option \<Rightarrow> vec \<times> rstate"
  fc :: "vec \<Rightarrow> vec"
  W1 :: "vec \<Rightarrow> vec"
  W2 :: "vec \<Rightarrow> vec"
  V :: "vec \<Rightarrow> real"

record lm_decoder =
  lm_embedding :: "token \<Rightarrow> vec"
  lm_rnn :: "vec \<Rightarrow> rstate option \<Rightarrow> vec \<times> rstate"
  lm_fc :: "vec \<Rightarrow> vec"

record seq2seq =
  encoder :: "token list \<Rightarrow> vec list \<times> rstate"
  decoder :: decoder
  lm_decoder :: "lm_decoder option"
  pass_enc2dec_hid :: bool
  lm_ctrl :: "vec \<Rightarrow> vec"
  dffc :: "vec \<Rightarrow> vec"

section \<open>Tensor primitives\<close>

text \<open>Elementwise operations on vectors of one shape.\<close>

definition vadd :: "vec \<Rightarrow> vec \<Rightarrow> vec" where
  "vadd a b = map2 (+) a b"

definition vmul :: "vec \<Rightarrow> vec \<Rightarrow> vec" where
  "vmul a b = map2 (*) a b"

definition vscale :: "real \<Rightarrow> vec \<Rightarrow> vec" where
  "vscale w a = map (\<lambda>v. w * v) a"

text \<open>
  \<^verbatim>\<open>torch.sum(t, axis=0)\<close> on a stack of vectors of one shape: the elementwise sum
  of the vectors. (For an empty stack torch returns zeros of the inner shape, which a
  list does not carry; the recurrent modules have at least one layer and the encoder
  output at least one position.)
\<close>

definition sum_axis0 :: "vec list \<Rightarrow> vec" where
  "sum_axis0 hs = (case hs of [] \<Rightarrow> [] | h # rest \<Rightarrow> foldl vadd h rest)"

text \<open>\<^verbatim>\<open>torch.softmax\<close> and \<^verbatim>\<open>nn.functional.log_softmax\<close> along the axis of the list.\<close>

definition softmax :: "real list \<Rightarrow> real list" where
  "softmax xs = map (\<lambda>x. exp x / sum_list (map exp xs)) xs"

definition log_softmax :: "real list \<Rightarrow> real list" where
  "log_softmax xs = map (\<lambda>x. x - ln (sum_list (map exp xs))) xs"

text \<open>
  \<^verbatim>\<open>a + b\<close> on two tensors of shape \<^verbatim>\<open>(1, n)\<close> and \<^verbatim>\<open>(1, m)\<close>: elementwise when
  \<open>n = m\<close>, broadcast when one of them has a single entry, a \<^verbatim>\<open>RuntimeError\<close>
  otherwise.
\<close>

definition tensor_add :: "real list \<Rightarrow> real list \<Rightarrow> error + real list" where
  "tensor_add a b =
     (if length a = length b then Inr (map2 (+) a b)
      else if length b = 1 then Inr (map (\<lambda>v. v + hd b) a)
      else if length a = 1 then Inr (map (\<lambda>v. hd a + v) b)
      else Inl RuntimeError)"

text \<open>
  \<^verbatim>\<open>torch.topk(t, k, dim=1)\<close> on a tensor of shape \<^verbatim>\<open>(1, n)\<close>: the \<open>k\<close> largest
  entries with their indices, largest first; a \<^verbatim>\<open>RuntimeError\<close> when \<open>k\<close> is
  negative or exceeds \<open>n\<close>. Among equal entries the lower index is listed first here
  (torch leaves that order open).
\<close>

definition topk :: "real list \<Rightarrow> int \<Rightarrow> error + (real \<times> nat) list" where
  "topk xs k =
     (if k < 0 \<or> int (length xs) < k then Inl RuntimeError
      else Inr (take (nat k) (sort_key (\<lambda>vi. - fst vi) (zip xs [0..<length xs]))))"

text \<open>Python's \<^verbatim>\<open>xs[:k]\<close>: a negative \<open>k\<close> counts from the end.\<close>

definition py_slice_to :: "int \<Rightarrow> 'a list \<Rightarrow> 'a list" where
  "py_slice_to k xs = (if 0 \<le> k then take (nat k) xs else take (length xs - nat (- k)) xs)"

section \<open>Decoder\<close>

text \<open>
  \<^verbatim>\<open>Decoder.attention(x, hidden, enc_output)\<close>: \<open>x\<close> is the embedded token,
  \<open>hidden\<close> the layer vectors of the state, \<open>enc_output\<close> the encoder's position
  vectors. Returns \<^verbatim>\<open>(attend_out, attention_weights)\<close>.
\<close>

definition attention :: "decoder \<Rightarrow> vec \<Rightarrow> vec list \<Rightarrow> vec list \<Rightarrow> vec \<times> real list" where
  "attention d x hidden enc_output =
     (let hidden_with_time_axis = sum_axis0 hidden;
          score = map (\<lambda>e. map tanh (vadd (W1 d e) (W2 d hidden_with_time_axis))) enc_output;
          attention_weights = softmax (map (V d) score);
          context_vector = map2 vscale attention_weights enc_output;
          context_vector = sum_axis0 context_vector;
          attend_out = context_vector @ x
      in (attend_out, attention_weights))"

text \<open>
  The state handed to the attention. \<^verbatim>\<open>hidden is None\<close> gives zeros of shape
  \<^verbatim>\<open>(dec_layers, 1, dec_hidden_dim)\<close>. For an LSTM \<^verbatim>\<open>Decoder.forward\<close> takes
  \<^verbatim>\<open>hidden[1]\<close> and \<^verbatim>\<open>Decoder.get_hidden\<close> takes \<^verbatim>\<open>hidden[0]\<close>. A state whose
  form does not fit the configured cell (a tuple in a GRU, a single tensor in an LSTM)
  makes the call fail in torch; that is the branch \<open>Inl TypeError\<close>.
\<close>

definition zeros_hidden :: "decoder \<Rightarrow> vec list" where
  "zeros_hidden d = replicate (dec_layers d) (replicate (dec_hidden_dim d) 0)"

definition hid_for_att_forward :: "decoder \<Rightarrow> rstate option \<Rightarrow> error + vec list" where
  "hid_for_att_forward d hidden =
     (case hidden of
        None \<Rightarrow> Inr (zeros_hidden d)
      | Some s \<Rightarrow>
          (if dec_rnn_type d = lstm
           then (case s of Pair h_n c_n \<Rightarrow> Inr c_n | Single t \<Rightarrow> Inl TypeError)
           else (case s of Single t \<Rightarrow> Inr t | Pair h_n c_n \<Rightarrow> Inl TypeError)))"

definition hid_for_att_get_hidden :: "decoder \<Rightarrow> rstate option \<Rightarrow> error + vec list" where
  "hid_for_att_get_hidden d hidden =
     (case hidden of
        None \<Rightarrow> Inr (zeros_hidden d)
      | Some s \<Rightarrow>
          (if dec_rnn_type d = lstm
           then (case s of Pair h_n c_n \<Rightarrow> Inr h_n | Single t \<Rightarrow> Inl TypeError)
           else (case s of Single t \<Rightarrow> Inr t | Pair h_n c_n \<Rightarrow> Inl TypeError)))"

text \<open>
  \<^verbatim>\<open>Decoder.forward(x, hidden, enc_output)\<close> returns \<^verbatim>\<open>(output, hidden, aw)\<close>;
  \<open>aw\<close> is the integer \<open>0\<close> of the source when attention is off, here the empty
  list.
\<close>

definition forward ::
  "decoder \<Rightarrow> token \<Rightarrow> rstate option \<Rightarrow> vec list \<Rightarrow> error + (vec \<times> rstate \<times> real list)" where
  "forward d x hidden enc_output =
     (if hidden = None \<and> \<not> use_attention d then Inl NoAttentionNoHidden
      else case hid_for_att_forward d hidden of
        Inl e \<Rightarrow> Inl e
      | Inr hid_for_att \<Rightarrow>
          (let x1 = embedding d x;
               (x2, aw) = (if use_attention d then attention d x1 hid_for_att enc_output
                           else (x1, []));
               (output, hidden') = dec_rnn d x2 hidden;
               output = fc d output
           in Inr (output, hidden', aw)))"

definition get_hidden ::
  "decoder \<Rightarrow> token \<Rightarrow> rstate option \<Rightarrow> vec list \<Rightarrow> error + rstate" where
  "get_hidden d x hidden enc_output =
     (case hid_for_att_get_hidden d hidden of
        Inl e \<Rightarrow> Inl e
      | Inr hid_for_att \<Rightarrow>
          (let x1 = embedding d x;
               (x2, aw) = (if use_attention d then attention d x1 hid_for_att enc_output
                           else (x1, []));
               (output, hidden') = dec_rnn d x2 hidden
           in Inr hidden'))"

section \<open>Language model\<close>

text \<open>\<^verbatim>\<open>LMDecoder.decoding(x, hidden)\<close> and \<^verbatim>\<open>LMDecoder.get_hidden(x, hidden)\<close>.\<close>

definition decoding :: "lm_decoder \<Rightarrow> token \<Rightarrow> rstate option \<Rightarrow> vec \<times> rstate" where
  "decoding l x hidden =
     (let x1 = lm_embedding l x;
          (output, hidden') = lm_rnn l x1 hidden;
          output = lm_fc l output
      in (output, hidden'))"

definition lm_get_hidden :: "lm_decoder \<Rightarrow> token \<Rightarrow> rstate option \<Rightarrow> rstate" where
  "lm_get_hidden l x hidden =
     (let x1 = lm_embedding l x;
          (output, hidden') = lm_rnn l x1 hidden
      in hidden')"

section \<open>Beam search\<close>

text \<open>
  A hypothesis is the tuple \<^verbatim>\<open>p_tup\<close> of the source: \<^verbatim>\<open>p_tup[0]\<close> the summed
  log-probability, \<^verbatim>\<open>p_tup[1]\<close> the token sequence, and the recurrent state(s) that
  follow: the decoder state for the base network, the pair of decoder and LM state for
  the fused searches.
\<close>

type_synonym 'st p_tup = "real \<times> token list \<times> 'st"

definition avg_score :: "'st p_tup \<Rightarrow> real" where
  "avg_score p_tup = fst p_tup"

definition seq_of :: "'st p_tup \<Rightarrow> token list" where
  "seq_of p_tup = fst (snd p_tup)"

definition state_of :: "'st p_tup \<Rightarrow> 'st" where
  "state_of p_tup = snd (snd p_tup)"

text \<open>
  The searches are pure but for the calls of the step functions. Each call is recorded,
  with the token and the state it was made on, in a log that is threaded through the
  search.
\<close>

datatype call =
    DecoderForward token "rstate option"
  | DecoderGetHidden token "rstate option"
  | LMDecoding token "rstate option"
  | LMGetHidden token "rstate option"

text \<open>
  \<^verbatim>\<open>cur_pred_list.sort(key = _avg_score, reverse = True)\<close>: Python's sort is stable,
  also with \<^verbatim>\<open>reverse = True\<close>.
\<close>

definition sort_reverse :: "'st p_tup list \<Rightarrow> 'st p_tup list" where
  "sort_reverse ps = sort_key (\<lambda>p. - avg_score p) ps"

text \<open>
  The inner loop \<^verbatim>\<open>for i in range(beam_width)\<close> that extends \<open>p_tup\<close> by each of the
  top-k tokens; \<open>st\<close> is the state the new hypotheses carry.
\<close>

definition new_preds :: "int \<Rightarrow> 'st p_tup \<Rightarrow> (real \<times> nat) list \<Rightarrow> 'st \<Rightarrow> 'st p_tup list" where
  "new_preds beam_width p_tup pred_topk st =
     map (\<lambda>i. (fst p_tup + fst (pred_topk ! i), seq_of p_tup @ [snd (pred_topk ! i)], st))
       [0..<nat beam_width]"

text \<open>
  The loop \<^verbatim>\<open>for p_tup in top_pred_list\<close> that builds \<^verbatim>\<open>cur_pred_list\<close>. The three
  searches differ only in how a hypothesis that has not ended is expanded; that part is
  the argument \<open>expand\<close>.
\<close>

fun cur_pred_list ::
  "('st p_tup \<Rightarrow> error + ('st p_tup list \<times> call list)) \<Rightarrow> token \<Rightarrow> 'st p_tup list
     \<Rightarrow> error + ('st p_tup list \<times> call list)" where
  "cur_pred_list expand end_tok [] = Inr ([], [])"
| "cur_pred_list expand end_tok (p_tup # rest) =
     (if seq_of p_tup = [] then Inl IndexError
      else if last (seq_of p_tup) = end_tok then
        (case cur_pred_list expand end_tok rest of
           Inl e \<Rightarrow> Inl e
         | Inr (cur, calls) \<Rightarrow> Inr (p_tup # cur, calls))
      else
        (case expand p_tup of
           Inl e \<Rightarrow> Inl e
         | Inr (new, c) \<Rightarrow>
             (case cur_pred_list expand end_tok rest of
                Inl e \<Rightarrow> Inl e
              | Inr (cur, calls) \<Rightarrow> Inr (new @ cur, c @ calls))))"

text \<open>One pass of the outer loop up to the pruning: candidates, sort, slice.\<close>

definition beam_step ::
  "('st p_tup \<Rightarrow> error + ('st p_tup list \<times> call list)) \<Rightarrow> token \<Rightarrow> int \<Rightarrow> 'st p_tup list
     \<Rightarrow> error + ('st p_tup list \<times> call list)" where
  "beam_step expand end_tok beam_width top_pred_list =
     (case cur_pred_list expand end_tok top_pred_list of
        Inl e \<Rightarrow> Inl e
      | Inr (cur, calls) \<Rightarrow> Inr (py_slice_to beam_width (sort_reverse cur), calls))"

definition end_flags :: "token \<Rightarrow> 'st p_tup list \<Rightarrow> error + int list" where
  "end_flags end_tok top_pred_list =
     (if \<exists>t \<in> set top_pred_list. seq_of t = [] then Inl IndexError
      else Inr (map (\<lambda>t. if last (seq_of t) = end_tok then 1 else 0) top_pred_list))"

text \<open>The outer loop \<^verbatim>\<open>for t in range(max_tgt_sz)\<close> with its \<^verbatim>\<open>break\<close>.\<close>

fun beam_loop ::
  "nat \<Rightarrow> ('st p_tup \<Rightarrow> error + ('st p_tup list \<times> call list)) \<Rightarrow> token \<Rightarrow> int
     \<Rightarrow> 'st p_tup list \<Rightarrow> call list \<Rightarrow> error + ('st p_tup list \<times> call list)" where
  "beam_loop 0 expand end_tok beam_width top_pred_list clog = Inr (top_pred_list, clog)"
| "beam_loop (Suc n) expand end_tok beam_width top_pred_list clog =
     (case beam_step expand end_tok beam_width top_pred_list of
        Inl e \<Rightarrow> Inl e
      | Inr (top', calls) \<Rightarrow>
          (case end_flags end_tok top' of
             Inl e \<Rightarrow> Inl e
           | Inr flags \<Rightarrow>
               if beam_width = sum_list flags then Inr (top', clog @ calls)
               else beam_loop n expand end_tok beam_width top' (clog @ calls)))"

subsection \<open>Base network\<close>

definition expand_basenet ::
  "seq2seq \<Rightarrow> int \<Rightarrow> vec list \<Rightarrow> (rstate option) p_tup
     \<Rightarrow> error + ((rstate option) p_tup list \<times> call list)" where
  "expand_basenet m beam_width enc_output p_tup =
     (let x = last (seq_of p_tup) in
      case forward (decoder m) x (state_of p_tup) enc_output of
        Inl e \<Rightarrow> Inl e
      | Inr (dec_output, dec_hidden, aw) \<Rightarrow>
          (let dec_output = log_softmax dec_output in
           case topk dec_output beam_width of
             Inl e \<Rightarrow> Inl e
           | Inr pred_topk \<Rightarrow>
               Inr (new_preds beam_width p_tup pred_topk (Some dec_hidden),
                    [DecoderForward x (state_of p_tup)])))"

text \<open>
  \<^verbatim>\<open>basenet_inference\<close> up to the end of its loop: the final \<^verbatim>\<open>top_pred_list\<close>
  (what the source returns with \<^verbatim>\<open>heuristics = True\<close>) and the call log.
\<close>

definition basenet_inference_top ::
  "seq2seq \<Rightarrow> token list \<Rightarrow> int \<Rightarrow> int
     \<Rightarrow> error + ((rstate option) p_tup list \<times> call list)" where
  "basenet_inference_top m src beam_width max_tgt_sz =
     (if src = [] then Inl IndexError
      else
        (let start_tok = hd src;
             end_tok = last src;
             (enc_output, enc_hidden) = encoder m src;
             init_dec_hidden = (if pass_enc2dec_hid m then Some enc_hidden else None)
         in beam_loop (nat max_tgt_sz) (expand_basenet m beam_width enc_output) end_tok
              beam_width [(0, [start_tok], init_dec_hidden)] []))"

text \<open>\<^verbatim>\<open>basenet_inference\<close> with the default \<^verbatim>\<open>heuristics = False\<close>.\<close>

definition basenet_inference ::
  "seq2seq \<Rightarrow> token list \<Rightarrow> int \<Rightarrow> int \<Rightarrow> error + token list list" where
  "basenet_inference m src beam_width max_tgt_sz =
     (case basenet_inference_top m src beam_width max_tgt_sz of
        Inl e \<Rightarrow> Inl e
      | Inr (top_pred_list, clog) \<Rightarrow> Inr (map seq_of top_pred_list))"

subsection \<open>Shallow fusion\<close>

definition expand_shallow ::
  "seq2seq \<Rightarrow> lm_decoder \<Rightarrow> int \<Rightarrow> vec list \<Rightarrow> (rstate option \<times> rstate option) p_tup
     \<Rightarrow> error + ((rstate option \<times> rstate option) p_tup list \<times> call list)" where
  "expand_shallow m l beam_width enc_output p_tup =
     (let x = last (seq_of p_tup) in
      case forward (decoder m) x (fst (state_of p_tup)) enc_output of
        Inl e \<Rightarrow> Inl e
      | Inr (dec_output, dec_hidden, aw) \<Rightarrow>
          (let (lm_output, lm_hidden) = decoding l x (snd (state_of p_tup));
               dec_output = log_softmax dec_output;
               lm_output = log_softmax lm_output
           in case tensor_add dec_output lm_output of
                Inl e \<Rightarrow> Inl e
              | Inr shl_output \<Rightarrow>
                  (case topk shl_output beam_width of
                     Inl e \<Rightarrow> Inl e
                   | Inr pred_topk \<Rightarrow>
                       Inr (new_preds beam_width p_tup pred_topk
                              (Some dec_hidden, Some lm_hidden),
                            [DecoderForward x (fst (state_of p_tup)),
                             LMDecoding x (snd (state_of p_tup))]))))"

definition shallow_fuse_inference_top ::
  "seq2seq \<Rightarrow> token list \<Rightarrow> int \<Rightarrow> int
     \<Rightarrow> error + ((rstate option \<times> rstate option) p_tup list \<times> call list)" where
  "shallow_fuse_inference_top m src beam_width max_tgt_sz =
     (case lm_decoder m of
        None \<Rightarrow> Inl AssertionError
      | Some l \<Rightarrow>
          (if src = [] then Inl IndexError
           else
             (let start_tok = hd src;
                  end_tok = last src;
                  (enc_output, enc_hidden) = encoder m src;
                  init_dec_hidden = (if pass_enc2dec_hid m then Some enc_hidden else None)
              in beam_loop (nat max_tgt_sz) (expand_shallow m l beam_width enc_output) end_tok
                   beam_width [(0, [start_tok], init_dec_hidden, None)] [])))"

definition shallow_fuse_inference ::
  "seq2seq \<Rightarrow> token list \<Rightarrow> int \<Rightarrow> int \<Rightarrow> error + token list list" where
  "shallow_fuse_inference m src beam_width max_tgt_sz =
     (case shallow_fuse_inference_top m src beam_width max_tgt_sz of
        Inl e \<Rightarrow> Inl e
      | Inr (top_pred_list, clog) \<Rightarrow> Inr (map seq_of top_pred_list))"

subsection \<open>Deep fusion\<close>

text \<open>
  \<^verbatim>\<open>hidden[0][-1]\<close> with the rank of the tensor it yields. On an LSTM tuple it is the
  last layer of \<open>h_n\<close>, of shape \<^verbatim>\<open>(1, hidden)\<close>; on a GRU tensor it is the last
  batch row of the first layer, of shape \<^verbatim>\<open>(hidden)\<close>.
\<close>

definition hidden0_last :: "rstate \<Rightarrow> error + (vec \<times> nat)" where
  "hidden0_last s =
     (case s of
        Pair h_n c_n \<Rightarrow> (if h_n = [] then Inl IndexError else Inr (last h_n, 2))
      | Single t \<Rightarrow> (if t = [] then Inl IndexError else Inr (hd t, 1)))"

text \<open>
  The fused output of one step. \<^verbatim>\<open>torch.cat\<close> needs both parts of one rank, and
  \<^verbatim>\<open>log_softmax(fused_output, dim=1)\<close> needs rank two.
\<close>

definition fused_log_softmax :: "seq2seq \<Rightarrow> rstate \<Rightarrow> rstate \<Rightarrow> error + real list" where
  "fused_log_softmax m dec_hidden lm_hidden =
     (case hidden0_last lm_hidden of
        Inl e \<Rightarrow> Inl e
      | Inr (lm_last, lm_rank) \<Rightarrow>
          (let lm_gated_hidden = vmul (lm_ctrl m lm_last) lm_last in
           case hidden0_last dec_hidden of
             Inl e \<Rightarrow> Inl e
           | Inr (dec_last, dec_rank) \<Rightarrow>
               (if dec_rank \<noteq> lm_rank then Inl RuntimeError
                else
                  (let fused_hidden = dec_last @ lm_gated_hidden;
                       fused_output = dffc m fused_hidden
                   in if dec_rank < 2 then Inl IndexError
                      else Inr (log_softmax fused_output)))))"

definition expand_deep ::
  "seq2seq \<Rightarrow> int \<Rightarrow> vec list \<Rightarrow> (rstate option \<times> rstate option) p_tup
     \<Rightarrow> error + ((rstate option \<times> rstate option) p_tup list \<times> call list)" where
  "expand_deep m beam_width enc_output p_tup =
     (let x = last (seq_of p_tup) in
      case get_hidden (decoder m) x (fst (state_of p_tup)) enc_output of
        Inl e \<Rightarrow> Inl e
      | Inr dec_hidden \<Rightarrow>
          (case lm_decoder m of
             None \<Rightarrow> Inl AttributeError
           | Some l \<Rightarrow>
               (let lm_hidden = lm_get_hidden l x (snd (state_of p_tup)) in
                case fused_log_softmax m dec_hidden lm_hidden of
                  Inl e \<Rightarrow> Inl e
                | Inr fused_output \<Rightarrow>
                    (case topk fused_output beam_width of
                       Inl e \<Rightarrow> Inl e
                     | Inr pred_topk \<Rightarrow>
                         Inr (new_preds beam_width p_tup pred_topk
                                (Some dec_hidden, Some lm_hidden),
                              [DecoderGetHidden x (fst (state_of p_tup)),
                               LMGetHidden x (snd (state_of p_tup))])))))"

definition deep_fuse_inference_top ::
  "seq2seq \<Rightarrow> token list \<Rightarrow> int \<Rightarrow> int
     \<Rightarrow> error + ((rstate option \<times> rstate option) p_tup list \<times> call list)" where
  "deep_fuse_inference_top m src beam_width max_tgt_sz =
     (if src = [] then Inl IndexError
      else
        (let start_tok = hd src;
             end_tok = last src;
             (enc_output, enc_hidden) = encoder m src;
             init_dec_hidden = (if pass_enc2dec_hid m then Some enc_hidden else None)
         in beam_loop (nat max_tgt_sz) (expand_deep m beam_width enc_output) end_tok
              beam_width [(0, [start_tok], init_dec_hidden, None)] []))"

definition deep_fuse_inference ::
  "seq2seq \<Rightarrow> token list \<Rightarrow> int \<Rightarrow> int \<Rightarrow> error + token list list" where
  "deep_fuse_inference m src beam_width max_tgt_sz =
     (case deep_fuse_inference_top m src beam_width max_tgt_sz of
        Inl e \<Rightarrow> Inl e
      | Inr (top_pred_list, clog) \<Rightarrow> Inr (map seq_of top_pred_list))"

section \<open>LM heuristic\<close>

text \<open>
  The loop \<^verbatim>\<open>for t in range(1, max_tgt_sz)\<close> of \<^verbatim>\<open>lm_heuristics\<close>, over the list of
  the values of \<open>t\<close>; it returns \<^verbatim>\<open>log_probs\<close>.
\<close>

fun lm_loop ::
  "lm_decoder option \<Rightarrow> token list \<Rightarrow> token \<Rightarrow> nat list \<Rightarrow> token \<Rightarrow> rstate option
     \<Rightarrow> real list \<Rightarrow> error + real list" where
  "lm_loop lmd src end_tok [] dec_input dec_hidden log_probs = Inr log_probs"
| "lm_loop lmd src end_tok (t # ts) dec_input dec_hidden log_probs =
     (case lmd of
        None \<Rightarrow> Inl AttributeError
      | Some l \<Rightarrow>
          (let (dec_output, dec_hidden') = decoding l dec_input dec_hidden;
               dec_output = log_softmax dec_output
           in if length dec_output \<le> src ! t then Inl IndexError
              else
                (let log_probs' = log_probs @ [dec_output ! (src ! t)];
                     dec_input' = src ! t
                 in if dec_input' = end_tok then Inr log_probs'
                    else lm_loop lmd src end_tok ts dec_input' (Some dec_hidden') log_probs')))"

definition lm_log_probs :: "seq2seq \<Rightarrow> token list \<Rightarrow> int \<Rightarrow> error + real list" where
  "lm_log_probs m src max_tgt_sz =
     (if src = [] then Inl IndexError
      else
        (let start_tok = hd src;
             end_tok = last src;
             max_tgt_sz = int (length src)
         in lm_loop (lm_decoder m) src end_tok [1..<nat max_tgt_sz] start_tok None []))"

definition lm_heuristics :: "seq2seq \<Rightarrow> token list \<Rightarrow> int \<Rightarrow> error + real" where
  "lm_heuristics m src max_tgt_sz =
     (case lm_log_probs m src max_tgt_sz of
        Inl e \<Rightarrow> Inl e
      | Inr log_probs \<Rightarrow>
          (if length log_probs = 0 then Inl ZeroDivisionError
           else Inr (sum_list log_probs / real (length log_probs))))"

section \<open>Predicates used in the statements\<close>

text \<open>
  \<open>extends_seq expand\<close>: every hypothesis that \<open>expand\<close> makes from \<open>p\<close> carries
  the sequence of \<open>p\<close> with one more token. \<open>starts_with s ps\<close>: every sequence in
  \<open>ps\<close> begins with \<open>s\<close>. \<open>score_desc ps\<close>: the scores, the first components
  \<^verbatim>\<open>p_tup[0]\<close> of the tuples, do not increase along \<open>ps\<close>.
  \<open>live end_tok ps\<close>: the hypotheses of \<open>ps\<close> that have not ended, in their order.
\<close>

definition extends_seq :: "('st p_tup \<Rightarrow> error + ('st p_tup list \<times> call list)) \<Rightarrow> bool" where
  "extends_seq expand \<longleftrightarrow>
     (\<forall>p new c. expand p = Inr (new, c) \<longrightarrow> (\<forall>q \<in> set new. \<exists>tok. seq_of q = seq_of p @ [tok]))"

definition starts_with :: "token \<Rightarrow> 'st p_tup list \<Rightarrow> bool" where
  "starts_with s ps \<longleftrightarrow> (\<forall>p \<in> set ps. seq_of p \<noteq> [] \<and> hd (seq_of p) = s)"

definition score_desc :: "'st p_tup list \<Rightarrow> bool" where
  "score_desc ps = sorted_wrt (\<lambda>a b. fst b \<le> fst a) ps"

definition live :: "token \<Rightarrow> 'st p_tup list \<Rightarrow> 'st p_tup list" where
  "live end_tok ps = filter (\<lambda>p. last (seq_of p) \<noteq> end_tok) ps"

section \<open>Reference definitions\<close>

text \<open>
  The step the two decoder entry points have in common, with the state that conditions
  the attention as an argument of its own: embed the token, attend (when attention is
  on), advance the recurrent cell. It returns the cell's output, the new state and the
  attention weights.
\<close>

definition decode_path ::
  "decoder \<Rightarrow> vec list \<Rightarrow> token \<Rightarrow> rstate option \<Rightarrow> vec list \<Rightarrow> vec \<times> rstate \<times> real list" where
  "decode_path d att_state x hidden enc_output =
     (let x1 = embedding d x;
          (x2, aw) = (if use_attention d then attention d x1 att_state enc_output
                      else (x1, []));
          (output, hidden') = dec_rnn d x2 hidden
      in (output, hidden', aw))"

text \<open>
  The sum over the layers of component \<open>j\<close> of a state, and component \<open>j\<close> of the sum
  of the encoder vectors weighted by \<open>ws\<close>.
\<close>

definition layer_sum :: "vec list \<Rightarrow> nat \<Rightarrow> real" where
  "layer_sum hidden j = (\<Sum>h\<leftarrow>hidden. h ! j)"

definition weighted_sum :: "real list \<Rightarrow> vec list \<Rightarrow> nat \<Rightarrow> real" where
  "weighted_sum ws es j = (\<Sum>(w, e)\<leftarrow>zip ws es. w * e ! j)"

text \<open>
  The replay of a supplied sequence through the language model: from the token \<open>x\<close> and
  the state \<open>h\<close>, the log-probability the model gives to each supplied next token, up
  to and with the first next token that is \<open>end_tok\<close>.
\<close>

fun lm_replay ::
  "lm_decoder \<Rightarrow> token \<Rightarrow> token \<Rightarrow> rstate option \<Rightarrow> token list \<Rightarrow> real list" where
  "lm_replay l end_tok x h [] = []"
| "lm_replay l end_tok x h (y # ys) =
     (let (out, h') = decoding l x h
      in log_softmax out ! y # (if y = end_tok then [] else lm_replay l end_tok y (Some h') ys))"

definition mean :: "real list \<Rightarrow> real" where
  "mean xs = sum_list xs / real (length xs)"

section \<open>A small concrete network\<close>

text \<open>
  A network over the three tokens \<open>0\<close>, \<open>1\<close>, \<open>2\<close>, used to run the definitions on
  concrete inputs: an LSTM decoder with attention whose projection gives every token the
  same logit, a language model of the same form, and an encoder that returns one
  position vector per input token.
\<close>

definition ex_decoder :: decoder where
  "ex_decoder =
     \<lparr>dec_rnn_type = lstm, dec_layers = 1, dec_hidden_dim = 1, use_attention = True,
      embedding = (\<lambda>x. [real x]),
      dec_rnn = (\<lambda>x h. ([1], Pair [[1]] [[2]])),
      fc = (\<lambda>v. [0, 0, 0]),
      W1 = (\<lambda>e. [0]), W2 = (\<lambda>h. [0]), V = (\<lambda>s. 0)\<rparr>"

definition ex_lm :: lm_decoder where
  "ex_lm =
     \<lparr>lm_embedding = (\<lambda>x. [real x]),
      lm_rnn = (\<lambda>x h. ([1], Pair [[3]] [[4]])),
      lm_fc = (\<lambda>v. [0, 0, 0])\<rparr>"

definition ex_model :: seq2seq where
  "ex_model =
     \<lparr>encoder = (\<lambda>src. (map (\<lambda>t. [real t]) src, Pair [[0]] [[0]])),
      decoder = ex_decoder,
      lm_decoder = Some ex_lm,
      pass_enc2dec_hid = True,
      lm_ctrl = (\<lambda>v. map (\<lambda>x. 1 / 2) v),
      dffc = (\<lambda>v. [0, 0, 0])\<rparr>"

text \<open>Two beams over that network, each with one ended hypothesis (\<open>End = 0\<close>) and one live.\<close>

definition ex_state :: "rstate option" where
  "ex_state = Some (Pair [[1]] [[2]])"

definition ex_enc :: "vec list" where
  "ex_enc = [[1], [2], [0]]"

definition ex_beam :: "(rstate option) p_tup list" where
  "ex_beam = [(0, [1, 0], ex_state), (- 1, [1, 1], ex_state)]"

definition ex_beam_fused :: "(rstate option \<times> rstate option) p_tup list" where
  "ex_beam_fused = [(0, [1, 0], ex_state, None), (- 1, [1, 1], ex_state, None)]"

text \<open>
  A language model over the tokens \<open>0\<close>, \<open>1\<close>, \<open>2\<close> whose log-probability for the tokens
  \<open>1\<close> and \<open>2\<close> is \<open>- 1\<close> at every step, and the network with that model.
\<close>

definition ex_lm_unit :: lm_decoder where
  "ex_lm_unit =
     \<lparr>lm_embedding = (\<lambda>x. [real x]),
      lm_rnn = (\<lambda>x h. ([1], Pair [[3]] [[4]])),
      lm_fc = (\<lambda>v. [ln (1 - 2 * exp (- 1)), - 1, - 1])\<rparr>"

definition ex_model_unit :: seq2seq where
  "ex_model_unit = ex_model\<lparr>lm_decoder := Some ex_lm_unit\<rparr>"

text \<open>
  The network with a decoder whose projection gives token \<open>0\<close> the largest logit, so
  that the best next token is determined.
\<close>

definition ex_model_peak :: seq2seq where
  "ex_model_peak = ex_model\<lparr>decoder := ex_decoder\<lparr>fc := (\<lambda>v. [1, 0, 0])\<rparr>\<rparr>"

section \<open>Properties of the primitives and of the search loop\<close>

subsection \<open>Slice, sort and pruning\<close>

lemma py_slice_to_take: "\<exists>n. py_slice_to k xs = take n xs"
  by (auto simp: py_slice_to_def)

lemma length_py_slice_to: "0 \<le> k \<Longrightarrow> length (py_slice_to k xs) \<le> nat k"
  by (simp add: py_slice_to_def)

lemma set_py_slice_to: "set (py_slice_to k xs) \<subseteq> set xs"
  by (auto simp: py_slice_to_def dest: in_set_takeD)

lemma sorted_wrt_take: "sorted_wrt R xs \<Longrightarrow> sorted_wrt R (take n xs)"
  by (metis append_take_drop_id sorted_wrt_append)

lemma sorted_sort_reverse:
  "score_desc (sort_reverse ps)"
proof -
  have "sorted (map (\<lambda>p. - avg_score p) (sort_reverse ps))"
    unfolding sort_reverse_def by (rule sorted_sort_key)
  then show ?thesis
    by (simp add: sorted_map score_desc_def avg_score_def)
qed

lemma set_sort_reverse: "set (sort_reverse ps) = set ps"
  by (simp add: sort_reverse_def)

lemma filter_sort_reverse:
  "filter (\<lambda>p. fst p = k) (sort_reverse ps) = filter (\<lambda>p. fst p = k) ps"
proof -
  have "filter (\<lambda>p. - avg_score p = - k) (sort_key (\<lambda>p. - avg_score p) ps)
        = filter (\<lambda>p. - avg_score p = - k) ps"
    by (rule sort_key_stable)
  then show ?thesis by (simp add: sort_reverse_def avg_score_def)
qed

lemma prefix_filter_take: "prefix (filter P (take n xs)) (filter P xs)"
  by (metis append_take_drop_id filter_append prefixI)

lemma beam_step_InrD:
  assumes "beam_step expand end_tok bw beam = Inr (beam', calls)"
  shows "\<exists>cur. cur_pred_list expand end_tok beam = Inr (cur, calls)
           \<and> beam' = py_slice_to bw (sort_reverse cur)"
  using assms by (auto simp: beam_step_def split: sum.splits)

lemma pruned_sorted:
  "score_desc (py_slice_to bw (sort_reverse cur))"
proof -
  obtain n where "py_slice_to bw (sort_reverse cur) = take n (sort_reverse cur)"
    using py_slice_to_take by blast
  then show ?thesis
    using sorted_sort_reverse [of cur] by (simp add: sorted_wrt_take score_desc_def)
qed

lemma pruned_stable:
  "prefix (filter (\<lambda>p. fst p = k) (py_slice_to bw (sort_reverse cur)))
          (filter (\<lambda>p. fst p = k) cur)"
proof -
  obtain n where "py_slice_to bw (sort_reverse cur) = take n (sort_reverse cur)"
    using py_slice_to_take by blast
  then show ?thesis
    using prefix_filter_take [of "\<lambda>p. fst p = k" n "sort_reverse cur"]
    by (simp add: filter_sort_reverse)
qed

subsection \<open>Unfolding one pass of the loops\<close>

lemma beam_loop_SucD:
  assumes "beam_loop (Suc n) expand end_tok bw beam clog = Inr (final, clog')"
  obtains beam' calls flags where
    "beam_step expand end_tok bw beam = Inr (beam', calls)"
    "(if bw = sum_list flags then Inr (beam', clog @ calls)
      else beam_loop n expand end_tok bw beam' (clog @ calls)) = Inr (final, clog')"
proof (cases "beam_step expand end_tok bw beam")
  case (Inl e)
  with assms show ?thesis by simp
next
  case (Inr r)
  obtain beam' calls where r: "r = (beam', calls)" by (cases r)
  show ?thesis
  proof (cases "end_flags end_tok beam'")
    case (Inl e)
    with assms Inr r show ?thesis by simp
  next
    case inr: (Inr flags)
    with assms Inr r that [of beam' calls flags] show ?thesis by simp
  qed
qed

lemma beam_loop_SucD':
  assumes "beam_loop (Suc n) expand end_tok bw beam clog = Inr (final, clog')"
  obtains beam' calls flags where
    "beam_step expand end_tok bw beam = Inr (beam', calls)"
    "end_flags end_tok beam' = Inr flags"
    "(if bw = sum_list flags then Inr (beam', clog @ calls)
      else beam_loop n expand end_tok bw beam' (clog @ calls)) = Inr (final, clog')"
proof (cases "beam_step expand end_tok bw beam")
  case (Inl e)
  with assms show ?thesis by simp
next
  case (Inr r)
  obtain beam' calls where r: "r = (beam', calls)" by (cases r)
  show ?thesis
  proof (cases "end_flags end_tok beam'")
    case (Inl e)
    with assms Inr r show ?thesis by simp
  next
    case inr: (Inr flags)
    with assms Inr r that [of beam' calls flags] show ?thesis by simp
  qed
qed

lemma beam_loop_sorted:
  assumes "beam_loop n expand end_tok bw beam clog = Inr (final, clog')"
      and "score_desc beam"
  shows "score_desc final"
  using assms
proof (induction n arbitrary: beam clog)
  case 0
  then show ?case by simp
next
  case (Suc n)
  from Suc.prems(1) obtain beam' calls flags where
    st: "beam_step expand end_tok bw beam = Inr (beam', calls)"
    and rest: "(if bw = sum_list flags then Inr (beam', clog @ calls)
                else beam_loop n expand end_tok bw beam' (clog @ calls)) = Inr (final, clog')"
    by (rule beam_loop_SucD)
  from st have s': "score_desc beam'"
    using beam_step_InrD pruned_sorted by blast
  show ?case
  proof (cases "bw = sum_list flags")
    case True
    with rest s' show ?thesis by simp
  next
    case False
    with rest have "beam_loop n expand end_tok bw beam' (clog @ calls) = Inr (final, clog')"
      by simp
    then show ?thesis using Suc.IH s' by blast
  qed
qed

lemma cur_pred_list_ended:
  assumes "seq_of p \<noteq> []" and "last (seq_of p) = end_tok"
      and "cur_pred_list expand end_tok (p # rest) = Inr (cur, calls)"
  shows "\<exists>cur'. cur_pred_list expand end_tok rest = Inr (cur', calls) \<and> cur = p # cur'"
proof (cases "cur_pred_list expand end_tok rest")
  case (Inl e)
  with assms show ?thesis by simp
next
  case (Inr r)
  with assms show ?thesis by (cases r) simp
qed

lemma cur_pred_list_live:
  assumes "last (seq_of p) \<noteq> end_tok"
      and "cur_pred_list expand end_tok (p # rest) = Inr (cur, calls)"
  shows "\<exists>new c cur' calls'. expand p = Inr (new, c)
           \<and> cur_pred_list expand end_tok rest = Inr (cur', calls')
           \<and> cur = new @ cur' \<and> calls = c @ calls'"
proof (cases "seq_of p = []")
  case True
  with assms show ?thesis by simp
next
  case False
  show ?thesis
  proof (cases "expand p")
    case (Inl e)
    with assms False show ?thesis by simp
  next
    case (Inr r)
    obtain new c where r: "r = (new, c)" by (cases r)
    show ?thesis
    proof (cases "cur_pred_list expand end_tok rest")
      case (Inl e)
      with assms False Inr r show ?thesis by simp
    next
      case inr: (Inr r')
      obtain cur' calls' where "r' = (cur', calls')" by (cases r')
      with assms False Inr r inr show ?thesis by simp
    qed
  qed
qed

lemma cur_pred_list_nonempty_seq:
  assumes "cur_pred_list expand end_tok (p # rest) = Inr (cur, calls)"
  shows "seq_of p \<noteq> []"
  using assms by (cases "seq_of p = []") simp_all

subsection \<open>Sequences grow at the end; the beam stays within its width\<close>

lemma new_preds_seq:
  "q \<in> set (new_preds bw p tk st) \<Longrightarrow> \<exists>tok. seq_of q = seq_of p @ [tok]"
  by (auto simp: new_preds_def seq_of_def)

lemma extends_seq_basenet: "extends_seq (expand_basenet m bw enc)"
  unfolding extends_seq_def expand_basenet_def
  by (auto simp: Let_def split: sum.splits dest: new_preds_seq)

lemma extends_seq_shallow: "extends_seq (expand_shallow m l bw enc)"
  unfolding extends_seq_def expand_shallow_def
  by (auto simp: Let_def split: sum.splits prod.splits dest: new_preds_seq)

lemma extends_seq_deep: "extends_seq (expand_deep m bw enc)"
  unfolding extends_seq_def expand_deep_def
  by (auto simp: Let_def split: sum.splits option.splits dest: new_preds_seq)

lemma starts_with_Cons:
  "starts_with s (p # ps) \<longleftrightarrow> seq_of p \<noteq> [] \<and> hd (seq_of p) = s \<and> starts_with s ps"
  by (auto simp: starts_with_def)

lemma starts_with_append:
  "starts_with s (ps @ qs) \<longleftrightarrow> starts_with s ps \<and> starts_with s qs"
  by (auto simp: starts_with_def)

lemma starts_with_subset: "set qs \<subseteq> set ps \<Longrightarrow> starts_with s ps \<Longrightarrow> starts_with s qs"
  by (auto simp: starts_with_def)

lemma cur_pred_list_starts:
  assumes "extends_seq expand"
      and "cur_pred_list expand end_tok beam = Inr (cur, calls)"
      and "starts_with s beam"
  shows "starts_with s cur"
  using assms(2,3)
proof (induction beam arbitrary: cur calls)
  case Nil
  then show ?case by (simp add: starts_with_def)
next
  case (Cons p rest)
  from Cons.prems(2) have p: "seq_of p \<noteq> []" "hd (seq_of p) = s" and r: "starts_with s rest"
    by (simp_all add: starts_with_Cons)
  show ?case
  proof (cases "last (seq_of p) = end_tok")
    case True
    from cur_pred_list_ended [OF p(1) True Cons.prems(1)] obtain cur' where
      c: "cur_pred_list expand end_tok rest = Inr (cur', calls)" "cur = p # cur'"
      by blast
    from Cons.IH [OF c(1) r] have "starts_with s cur'" .
    with c(2) p show ?thesis by (simp add: starts_with_Cons)
  next
    case False
    from cur_pred_list_live [OF False Cons.prems(1)] obtain new c cur' calls' where
      e: "expand p = Inr (new, c)" and
      c: "cur_pred_list expand end_tok rest = Inr (cur', calls')" "cur = new @ cur'"
      by blast
    from e assms(1) have "\<forall>q \<in> set new. \<exists>tok. seq_of q = seq_of p @ [tok]"
      unfolding extends_seq_def by blast
    with p have "starts_with s new"
      by (auto simp: starts_with_def)
    moreover from Cons.IH [OF c(1) r] have "starts_with s cur'" .
    ultimately show ?thesis using c(2) by (simp add: starts_with_append)
  qed
qed

lemma beam_step_starts:
  assumes "extends_seq expand"
      and "beam_step expand end_tok bw beam = Inr (beam', calls)"
      and "starts_with s beam"
  shows "starts_with s beam'"
proof -
  from assms(2) obtain cur where
    c: "cur_pred_list expand end_tok beam = Inr (cur, calls)"
    and b: "beam' = py_slice_to bw (sort_reverse cur)"
    using beam_step_InrD by blast
  from cur_pred_list_starts [OF assms(1) c assms(3)] have "starts_with s cur" .
  moreover have "set beam' \<subseteq> set cur"
    using b set_py_slice_to [of bw "sort_reverse cur"] by (simp add: set_sort_reverse)
  ultimately show ?thesis by (rule starts_with_subset [rotated])
qed

lemma beam_step_length:
  assumes "beam_step expand end_tok bw beam = Inr (beam', calls)" and "0 \<le> bw"
  shows "length beam' \<le> nat bw"
  using assms beam_step_InrD [OF assms(1)] length_py_slice_to by blast

lemma beam_loop_inv:
  assumes "extends_seq expand"
      and "beam_loop n expand end_tok bw beam clog = Inr (final, clog')"
      and "starts_with s beam" and "length beam \<le> nat bw" and "0 \<le> bw"
  shows "starts_with s final \<and> length final \<le> nat bw"
  using assms(2,3,4)
proof (induction n arbitrary: beam clog)
  case 0
  then show ?case by simp
next
  case (Suc n)
  from Suc.prems(1) obtain beam' calls flags where
    st: "beam_step expand end_tok bw beam = Inr (beam', calls)"
    and rest: "(if bw = sum_list flags then Inr (beam', clog @ calls)
                else beam_loop n expand end_tok bw beam' (clog @ calls)) = Inr (final, clog')"
    by (rule beam_loop_SucD)
  have s: "starts_with s beam'"
    using beam_step_starts [OF assms(1) st Suc.prems(2)] .
  have l: "length beam' \<le> nat bw"
    using beam_step_length [OF st assms(5)] .
  show ?case
  proof (cases "bw = sum_list flags")
    case True
    with rest s l show ?thesis by simp
  next
    case False
    with rest have "beam_loop n expand end_tok bw beam' (clog @ calls) = Inr (final, clog')"
      by simp
    then show ?thesis using Suc.IH s l by blast
  qed
qed

lemma decode_result:
  assumes "extends_seq expand"
      and "beam_loop n expand end_tok bw [(0, [s], st)] [] = Inr (final, clog')"
      and "1 \<le> bw"
  shows "length (map seq_of final) \<le> nat bw \<and> (\<forall>q \<in> set (map seq_of final). q \<noteq> [] \<and> hd q = s)"
proof -
  have "starts_with s [(0, [s], st)]" by (simp add: starts_with_def seq_of_def)
  moreover have "length [(0::real, [s], st)] \<le> nat bw" using assms(3) by simp
  ultimately have "starts_with s final \<and> length final \<le> nat bw"
    using beam_loop_inv [OF assms(1,2)] assms(3) by simp
  then show ?thesis by (auto simp: starts_with_def)
qed

lemma basenet_inference_InrD:
  assumes "basenet_inference m src bw mts = Inr seqs"
  shows "\<exists>enc st final clog. beam_loop (nat mts) (expand_basenet m bw enc) (last src) bw
            [(0, [hd src], st)] [] = Inr (final, clog) \<and> seqs = map seq_of final"
proof -
  from assms obtain final clog where
    t: "basenet_inference_top m src bw mts = Inr (final, clog)" and s: "seqs = map seq_of final"
    unfolding basenet_inference_def by (auto split: sum.splits)
  obtain enc hid where e: "encoder m src = (enc, hid)" by (cases "encoder m src")
  from t e have "beam_loop (nat mts) (expand_basenet m bw enc) (last src) bw
            [(0, [hd src], if pass_enc2dec_hid m then Some hid else None)] [] = Inr (final, clog)"
    unfolding basenet_inference_top_def by (simp split: if_splits)
  with s show ?thesis by blast
qed

lemma shallow_fuse_inference_InrD:
  assumes "shallow_fuse_inference m src bw mts = Inr seqs"
  shows "\<exists>l enc st final clog. beam_loop (nat mts) (expand_shallow m l bw enc) (last src) bw
            [(0, [hd src], st)] [] = Inr (final, clog) \<and> seqs = map seq_of final"
proof -
  from assms obtain final clog where
    t: "shallow_fuse_inference_top m src bw mts = Inr (final, clog)"
    and s: "seqs = map seq_of final"
    unfolding shallow_fuse_inference_def by (auto split: sum.splits)
  from t obtain l where l: "lm_decoder m = Some l"
    unfolding shallow_fuse_inference_top_def by (cases "lm_decoder m") auto
  obtain enc hid where e: "encoder m src = (enc, hid)" by (cases "encoder m src")
  from t e l have "beam_loop (nat mts) (expand_shallow m l bw enc) (last src) bw
            [(0, [hd src], if pass_enc2dec_hid m then Some hid else None, None)] []
          = Inr (final, clog)"
    unfolding shallow_fuse_inference_top_def by (simp split: if_splits)
  with s show ?thesis by blast
qed

lemma deep_fuse_inference_InrD:
  assumes "deep_fuse_inference m src bw mts = Inr seqs"
  shows "\<exists>enc st final clog. beam_loop (nat mts) (expand_deep m bw enc) (last src) bw
            [(0, [hd src], st)] [] = Inr (final, clog) \<and> seqs = map seq_of final"
proof -
  from assms obtain final clog where
    t: "deep_fuse_inference_top m src bw mts = Inr (final, clog)" and s: "seqs = map seq_of final"
    unfolding deep_fuse_inference_def by (auto split: sum.splits)
  obtain enc hid where e: "encoder m src = (enc, hid)" by (cases "encoder m src")
  from t e have "beam_loop (nat mts) (expand_deep m bw enc) (last src) bw
            [(0, [hd src], if pass_enc2dec_hid m then Some hid else None, None)] []
          = Inr (final, clog)"
    unfolding deep_fuse_inference_top_def by (simp split: if_splits)
  with s show ?thesis by blast
qed

subsection \<open>Ended hypotheses and the call log\<close>

lemma cur_pred_list_carries:
  assumes "cur_pred_list expand end_tok beam = Inr (cur, calls)"
      and "p \<in> set beam" and "last (seq_of p) = end_tok"
  shows "p \<in> set cur"
  using assms(1,2)
proof (induction beam arbitrary: cur calls)
  case Nil
  then show ?case by simp
next
  case (Cons q rest)
  have q: "seq_of q \<noteq> []" using Cons.prems(1) by (rule cur_pred_list_nonempty_seq)
  show ?case
  proof (cases "last (seq_of q) = end_tok")
    case True
    from cur_pred_list_ended [OF q True Cons.prems(1)] obtain cur' where
      c: "cur_pred_list expand end_tok rest = Inr (cur', calls)" "cur = q # cur'"
      by blast
    show ?thesis
    proof (cases "p = q")
      case True
      with c(2) show ?thesis by simp
    next
      case False
      with Cons.prems(2) have "p \<in> set rest" by simp
      from Cons.IH [OF c(1) this] c(2) show ?thesis by simp
    qed
  next
    case False
    from cur_pred_list_live [OF False Cons.prems(1)] obtain new c cur' calls' where
      c: "cur_pred_list expand end_tok rest = Inr (cur', calls')" "cur = new @ cur'"
      by blast
    from False assms(3) have "p \<noteq> q" by blast
    with Cons.prems(2) have "p \<in> set rest" by simp
    from Cons.IH [OF c(1) this] c(2) show ?thesis by simp
  qed
qed

lemma cur_pred_list_calls:
  assumes "\<And>p new c. expand p = Inr (new, c) \<Longrightarrow> c = f p"
      and "cur_pred_list expand end_tok beam = Inr (cur, calls)"
  shows "calls = concat (map f (live end_tok beam))"
  using assms(2)
proof (induction beam arbitrary: cur calls)
  case Nil
  then show ?case by (simp add: live_def)
next
  case (Cons q rest)
  have q: "seq_of q \<noteq> []" using Cons.prems(1) by (rule cur_pred_list_nonempty_seq)
  show ?case
  proof (cases "last (seq_of q) = end_tok")
    case True
    from cur_pred_list_ended [OF q True Cons.prems(1)] obtain cur' where
      c: "cur_pred_list expand end_tok rest = Inr (cur', calls)"
      by blast
    from Cons.IH [OF c] True show ?thesis by (simp add: live_def)
  next
    case False
    from cur_pred_list_live [OF False Cons.prems(1)] obtain new c cur' calls' where
      e: "expand q = Inr (new, c)" and
      c: "cur_pred_list expand end_tok rest = Inr (cur', calls')" "calls = c @ calls'"
      by blast
    from assms(1) [OF e] have "c = f q" .
    with Cons.IH [OF c(1)] c(2) False show ?thesis by (simp add: live_def)
  qed
qed

lemma expand_basenet_calls:
  "expand_basenet m bw enc p = Inr (new, c)
     \<Longrightarrow> c = [DecoderForward (last (seq_of p)) (state_of p)]"
  unfolding expand_basenet_def by (auto simp: Let_def split: sum.splits)

lemma expand_shallow_calls:
  "expand_shallow m l bw enc p = Inr (new, c)
     \<Longrightarrow> c = [DecoderForward (last (seq_of p)) (fst (state_of p)),
              LMDecoding (last (seq_of p)) (snd (state_of p))]"
  unfolding expand_shallow_def by (auto simp: Let_def split: sum.splits prod.splits)

lemma expand_deep_calls:
  "expand_deep m bw enc p = Inr (new, c)
     \<Longrightarrow> c = [DecoderGetHidden (last (seq_of p)) (fst (state_of p)),
              LMGetHidden (last (seq_of p)) (snd (state_of p))]"
  unfolding expand_deep_def by (auto simp: Let_def split: sum.splits option.splits)

subsection \<open>The beams of the decode calls are sorted\<close>

lemma score_desc_single: "score_desc [p]"
  by (simp add: score_desc_def)

lemma basenet_top_sorted:
  assumes "basenet_inference_top m src bw mts = Inr (final, clog)"
  shows "score_desc final"
proof -
  obtain enc hid where e: "encoder m src = (enc, hid)" by (cases "encoder m src")
  from assms e have "beam_loop (nat mts) (expand_basenet m bw enc) (last src) bw
            [(0, [hd src], if pass_enc2dec_hid m then Some hid else None)] [] = Inr (final, clog)"
    unfolding basenet_inference_top_def by (simp split: if_splits)
  then show ?thesis using score_desc_single by (rule beam_loop_sorted)
qed

lemma shallow_top_sorted:
  assumes "shallow_fuse_inference_top m src bw mts = Inr (final, clog)"
  shows "score_desc final"
proof -
  from assms obtain l where l: "lm_decoder m = Some l"
    unfolding shallow_fuse_inference_top_def by (cases "lm_decoder m") auto
  obtain enc hid where e: "encoder m src = (enc, hid)" by (cases "encoder m src")
  from assms e l have "beam_loop (nat mts) (expand_shallow m l bw enc) (last src) bw
            [(0, [hd src], if pass_enc2dec_hid m then Some hid else None, None)] []
          = Inr (final, clog)"
    unfolding shallow_fuse_inference_top_def by (simp split: if_splits)
  then show ?thesis using score_desc_single by (rule beam_loop_sorted)
qed

lemma deep_top_sorted:
  assumes "deep_fuse_inference_top m src bw mts = Inr (final, clog)"
  shows "score_desc final"
proof -
  obtain enc hid where e: "encoder m src = (enc, hid)" by (cases "encoder m src")
  from assms e have "beam_loop (nat mts) (expand_deep m bw enc) (last src) bw
            [(0, [hd src], if pass_enc2dec_hid m then Some hid else None, None)] []
          = Inr (final, clog)"
    unfolding deep_fuse_inference_top_def by (simp split: if_splits)
  then show ?thesis using score_desc_single by (rule beam_loop_sorted)
qed

subsection \<open>A beam with a single ended hypothesis; width zero\<close>

lemma beam_step_ended_single:
  assumes "1 \<le> bw"
  shows "beam_step expand end_tok bw [(s0, [end_tok], st)] = Inr ([(s0, [end_tok], st)], [])"
  using assms by (simp add: beam_step_def seq_of_def sort_reverse_def py_slice_to_def)

lemma beam_loop_ended_single:
  assumes "1 \<le> bw"
  shows "beam_loop n expand end_tok bw [(s0, [end_tok], st)] clog
           = Inr ([(s0, [end_tok], st)], clog)"
proof (induction n)
  case 0
  show ?case by simp
next
  case (Suc n)
  have "end_flags end_tok [(s0, [end_tok], st)] = Inr [1]"
    by (simp add: end_flags_def seq_of_def)
  with Suc beam_step_ended_single [OF assms, of expand end_tok s0 st] show ?case
    by simp
qed

lemma last_singleton_hd: "src \<noteq> [] \<Longrightarrow> hd src = last src \<Longrightarrow> [hd src] = [last src]"
  by simp

lemma beam_loop_width0:
  assumes "beam_loop (Suc n) expand end_tok 0 beam clog = Inr (final, clog')"
  shows "final = []"
proof -
  from assms obtain beam' calls flags where
    st: "beam_step expand end_tok 0 beam = Inr (beam', calls)"
    and fl: "end_flags end_tok beam' = Inr flags"
    and rest: "(if 0 = sum_list flags then Inr (beam', clog @ calls)
                else beam_loop n expand end_tok 0 beam' (clog @ calls)) = Inr (final, clog')"
    by (rule beam_loop_SucD')
  from beam_step_InrD [OF st] have b: "beam' = []" by (auto simp: py_slice_to_def)
  with fl have "flags = []" by (simp add: end_flags_def)
  with rest b show ?thesis by simp
qed

lemma nat_ge1_Suc: "1 \<le> (k::int) \<Longrightarrow> \<exists>n. nat k = Suc n"
  by (cases "nat k") auto

lemma decode_width0:
  assumes "1 \<le> mts"
      and "beam_loop (nat mts) expand end_tok 0 beam [] = Inr (final, clog)"
  shows "map seq_of final = []"
proof -
  from nat_ge1_Suc [OF assms(1)] obtain n where "nat mts = Suc n" by blast
  with assms(2) have "beam_loop (Suc n) expand end_tok 0 beam [] = Inr (final, clog)" by simp
  then have "final = []" by (rule beam_loop_width0)
  then show ?thesis by simp
qed

lemma topk_0: "topk xs 0 = Inr []"
  by (simp add: topk_def)

subsection \<open>Top-k and the new hypotheses\<close>

lemma length_log_softmax: "length (log_softmax xs) = length xs"
  by (simp add: log_softmax_def)





subsection \<open>Sums over layers and the softmax\<close>

lemma length_vadd: "length (vadd a b) = min (length a) (length b)"
  by (simp add: vadd_def)

lemma nth_vadd: "j < length a \<Longrightarrow> j < length b \<Longrightarrow> vadd a b ! j = a ! j + b ! j"
  by (simp add: vadd_def)

lemma foldl_vadd:
  assumes "length a = n" and "\<forall>h \<in> set rest. length h = n"
  shows "length (foldl vadd a rest) = n
       \<and> (\<forall>j < n. foldl vadd a rest ! j = a ! j + (\<Sum>h\<leftarrow>rest. h ! j))"
  using assms
proof (induction rest arbitrary: a)
  case Nil
  then show ?case by simp
next
  case (Cons h rest)
  have l: "length (vadd a h) = n" using Cons.prems by (simp add: length_vadd)
  have r: "\<forall>h \<in> set rest. length h = n" using Cons.prems by simp
  from Cons.IH [OF l r] have
    ih: "length (foldl vadd (vadd a h) rest) = n"
        "\<forall>j < n. foldl vadd (vadd a h) rest ! j = vadd a h ! j + (\<Sum>h\<leftarrow>rest. h ! j)"
    by blast+
  have "vadd a h ! j = a ! j + h ! j" if "j < n" for j
    using that Cons.prems by (simp add: nth_vadd)
  with ih show ?case by (simp add: add.assoc)
qed

lemma sum_axis0_pointwise:
  assumes "hs \<noteq> []" and "\<forall>h \<in> set hs. length h = n"
  shows "sum_axis0 hs = map (layer_sum hs) [0..<n]"
proof -
  from assms(1) obtain a rest where hs: "hs = a # rest" by (cases hs) auto
  with assms(2) have a: "length a = n" and r: "\<forall>h \<in> set rest. length h = n" by simp_all
  from foldl_vadd [OF a r] have
    l: "length (foldl vadd a rest) = n"
    and v: "\<forall>j < n. foldl vadd a rest ! j = a ! j + (\<Sum>h\<leftarrow>rest. h ! j)"
    by blast+
  show ?thesis
  proof (rule nth_equalityI)
    show "length (sum_axis0 hs) = length (map (layer_sum hs) [0..<n])"
      using l by (simp add: sum_axis0_def hs)
  next
    fix j assume "j < length (sum_axis0 hs)"
    then have j: "j < n" using l by (simp add: sum_axis0_def hs)
    with v show "sum_axis0 hs ! j = map (layer_sum hs) [0..<n] ! j"
      by (simp add: sum_axis0_def hs layer_sum_def)
  qed
qed

lemma length_softmax: "length (softmax xs) = length xs"
  by (simp add: softmax_def)

lemma sum_list_exp_pos: "xs \<noteq> [] \<Longrightarrow> 0 < sum_list (map exp (xs :: real list))"
proof (induction xs)
  case Nil
  then show ?case by simp
next
  case (Cons x xs)
  have "0 \<le> sum_list (map exp xs)" by (rule sum_list_nonneg) auto
  moreover have "0 < exp x" by simp
  ultimately have "0 < exp x + sum_list (map exp xs)" by (rule add_pos_nonneg [rotated])
  then show ?case by simp
qed

lemma softmax_pos: "xs \<noteq> [] \<Longrightarrow> i < length xs \<Longrightarrow> 0 < softmax xs ! i"
  by (simp add: softmax_def sum_list_exp_pos)

lemma sum_list_divide: "sum_list (map (\<lambda>x. f x / c) xs) = sum_list (map f xs) / (c::real)"
  by (induction xs) (simp_all add: add_divide_distrib)

lemma sum_list_softmax: "xs \<noteq> [] \<Longrightarrow> sum_list (softmax xs) = 1"
proof -
  assume "xs \<noteq> []"
  then have "sum_list (map exp xs) \<noteq> 0" using sum_list_exp_pos [of xs] by simp
  then show ?thesis
    unfolding softmax_def by (simp add: sum_list_divide)
qed

lemma layer_sum_scaled:
  assumes "\<forall>e \<in> set es. length e = n" and "j < n"
  shows "layer_sum (map2 vscale ws es) j = weighted_sum ws es j"
  using assms(1)
proof (induction ws es rule: list_induct2')
  case (4 w ws e es)
  then have "length e = n" and "\<forall>e \<in> set es. length e = n" by simp_all
  with 4 assms(2) show ?case
    by (simp add: layer_sum_def weighted_sum_def vscale_def)
qed (simp_all add: layer_sum_def weighted_sum_def)

lemma attention_weights_eq:
  "snd (attention d x hidden enc_output)
     = softmax (map (\<lambda>e. V d (map tanh (vadd (W1 d e) (W2 d (sum_axis0 hidden))))) enc_output)"
  by (simp add: attention_def Let_def comp_def)

lemma attention_out_eq:
  "fst (attention d x hidden enc_output)
     = sum_axis0 (map2 vscale (snd (attention d x hidden enc_output)) enc_output) @ x"
  by (simp add: attention_def Let_def comp_def)

subsection \<open>The loop of the LM heuristic\<close>

lemma lm_loop_Cons:
  assumes "decoding l x h = (out, h')"
  shows "lm_loop (Some l) src end_tok (t # ts) x h acc =
           (if length out \<le> src ! t then Inl IndexError
            else if src ! t = end_tok then Inr (acc @ [log_softmax out ! (src ! t)])
            else lm_loop (Some l) src end_tok ts (src ! t) (Some h')
                   (acc @ [log_softmax out ! (src ! t)]))"
  using assms by (simp add: Let_def length_log_softmax)

lemma lm_loop_length:
  assumes "lm_loop lmd src end_tok ts x h acc = Inr lps"
  shows "length acc \<le> length lps \<and> length lps \<le> length acc + length ts
       \<and> (ts \<noteq> [] \<longrightarrow> length acc < length lps)"
  using assms
proof (induction ts arbitrary: x h acc)
  case Nil
  then show ?case by simp
next
  case (Cons t ts)
  from Cons.prems obtain l where l: "lmd = Some l" by (cases lmd) auto
  obtain out h' where d: "decoding l x h = (out, h')" by (cases "decoding l x h")
  let ?acc = "acc @ [log_softmax out ! (src ! t)]"
  show ?case
  proof (cases "src ! t = end_tok")
    case True
    with Cons.prems l have "lps = ?acc"
      by (simp add: lm_loop_Cons [OF d] del: lm_loop.simps split: if_splits)
    then show ?thesis by simp
  next
    case False
    with Cons.prems l have "lm_loop lmd src end_tok ts (src ! t) (Some h') ?acc = Inr lps"
      by (simp add: lm_loop_Cons [OF d] del: lm_loop.simps split: if_splits)
    from Cons.IH [OF this] show ?thesis by auto
  qed
qed

lemma lm_loop_replay:
  assumes "\<forall>x h. \<forall>y \<in> set (drop t0 src). y < length (fst (decoding l x h))"
  shows "lm_loop (Some l) src end_tok [t0..<length src] x h acc
           = Inr (acc @ lm_replay l end_tok x h (drop t0 src))"
  using assms
proof (induction "length src - t0" arbitrary: t0 x h acc)
  case 0
  then show ?case by simp
next
  case (Suc n)
  then have lt: "t0 < length src" by simp
  have u: "[t0..<length src] = t0 # [Suc t0..<length src]" using lt by (rule upt_conv_Cons)
  have dr: "drop t0 src = src ! t0 # drop (Suc t0) src" using lt by (simp add: Cons_nth_drop_Suc)
  obtain out h' where d: "decoding l x h = (out, h')" by (cases "decoding l x h")
  from Suc.prems dr have "src ! t0 < length (fst (decoding l x h))" by simp
  with d have voc: "src ! t0 < length out" by simp
  have n: "n = length src - Suc t0" using Suc.hyps(2) by simp
  have rest: "\<forall>x h. \<forall>y \<in> set (drop (Suc t0) src). y < length (fst (decoding l x h))"
    using Suc.prems dr by simp
  show ?case
  proof (cases "src ! t0 = end_tok")
    case True
    with d voc show ?thesis unfolding u dr
      by (simp add: lm_loop_Cons [OF d] del: lm_loop.simps)
  next
    case False
    with d voc Suc.hyps(1) [OF n rest] show ?thesis unfolding u dr
      by (simp add: lm_loop_Cons [OF d] del: lm_loop.simps)
  qed
qed

lemma lm_log_probs_replay:
  assumes "lm_decoder m = Some l" and "src \<noteq> []"
      and "\<forall>x h. \<forall>y \<in> set (tl src). y < length (fst (decoding l x h))"
  shows "lm_log_probs m src k = Inr (lm_replay l (last src) (hd src) None (tl src))"
proof -
  have "\<forall>x h. \<forall>y \<in> set (drop 1 src). y < length (fst (decoding l x h))"
    using assms(3) by (simp add: drop_Suc)
  from lm_loop_replay [OF this, of "last src" "hd src" None "[]"] assms(1,2)
  show ?thesis by (simp add: lm_log_probs_def drop_Suc)
qed

lemma lm_replay_nonempty: "ys \<noteq> [] \<Longrightarrow> lm_replay l e x h ys \<noteq> []"
  by (cases ys) (simp_all split: prod.splits)

lemma length_lm_replay:
  "e \<in> set ys \<Longrightarrow> length (lm_replay l e x h ys) = Suc (length (takeWhile (\<lambda>y. y \<noteq> e) ys))"
  by (induction ys arbitrary: x h) (auto split: prod.splits)

lemma lm_replay_const:
  assumes "\<forall>x h. \<forall>y \<in> set ys. log_softmax (fst (decoding l x h)) ! y = c"
  shows "set (lm_replay l e x h ys) \<subseteq> {c}"
  using assms
proof (induction ys arbitrary: x h)
  case Nil
  then show ?case by simp
next
  case (Cons y ys)
  obtain out h' where d: "decoding l x h = (out, h')" by (cases "decoding l x h")
  from Cons.prems have "log_softmax (fst (decoding l x h)) ! y = c" by simp
  with d have "log_softmax out ! y = c" by simp
  moreover from Cons.prems have "\<forall>x h. \<forall>y \<in> set ys. log_softmax (fst (decoding l x h)) ! y = c"
    by simp
  from Cons.IH [OF this] have "set (lm_replay l e y (Some h') ys) \<subseteq> {c}" .
  ultimately show ?case using d by auto
qed

lemma mean_const:
  assumes "xs \<noteq> []" and "set xs \<subseteq> {c}"
  shows "mean xs = c"
proof -
  from assms(2) have "xs = replicate (length xs) c"
    by (induction xs) auto
  then have "sum_list xs = real (length xs) * c"
    by (metis sum_list_replicate)
  with assms(1) show ?thesis by (simp add: mean_def)
qed

lemma lm_heuristics_replay:
  assumes "lm_decoder m = Some l" and "2 \<le> length src"
      and "\<forall>x h. \<forall>y \<in> set (tl src). y < length (fst (decoding l x h))"
  shows "lm_heuristics m src k = Inr (mean (lm_replay l (last src) (hd src) None (tl src)))"
proof -
  from assms(2) have ne: "src \<noteq> []" and tl: "tl src \<noteq> []" by (cases src; auto)+
  have "lm_replay l (last src) (hd src) None (tl src) \<noteq> []"
    using tl by (rule lm_replay_nonempty)
  with lm_log_probs_replay [OF assms(1) ne assms(3), of k] show ?thesis
    by (simp add: lm_heuristics_def mean_def)
qed

lemma last_in_tl: "2 \<le> length src \<Longrightarrow> last src \<in> set (tl src)"
  by (cases src) (auto simp: last_in_set)

lemma lm_log_probs_ignores: "lm_log_probs m src k = lm_log_probs m src k'"
  by (simp add: lm_log_probs_def)

lemma lm_log_probs_length:
  assumes "lm_log_probs m src k = Inr lps"
  shows "length lps \<le> length src - 1 \<and> (2 \<le> length src \<longrightarrow> lps \<noteq> [])"
proof -
  from assms have ne: "src \<noteq> []"
    and l: "lm_loop (lm_decoder m) src (last src) [1..<length src] (hd src) None [] = Inr lps"
    by (auto simp: lm_log_probs_def split: if_splits)
  from lm_loop_length [OF l] show ?thesis by auto
qed

lemma lm_log_probs_single: "length src = 1 \<Longrightarrow> lm_log_probs m src k = Inr []"
  by (cases src) (simp_all add: lm_log_probs_def)

section \<open>The concrete networks, evaluated\<close>

lemma log_softmax_000: "log_softmax [0, 0, 0] = [- ln 3, - ln 3, - ln 3]"
  by (simp add: log_softmax_def)

lemma topk_uniform1: "topk [v, v, v] 1 = Inr [(v, 0)]"
  by (simp add: topk_def upt_rec)

lemma topk_uniform2: "topk [v, v, v] 2 = Inr [(v, 0), (v, 1)]"
  by (simp add: topk_def upt_rec)

lemma ex_model_fields:
  "encoder ex_model src = (map (\<lambda>t. [real t]) src, Pair [[0]] [[0]])"
  "decoder ex_model = ex_decoder"
  "lm_decoder ex_model = Some ex_lm"
  "pass_enc2dec_hid ex_model = True"
  "dffc ex_model v = [0, 0, 0]"
  by (simp_all add: ex_model_def)

lemma ex_forward:
  "forward ex_decoder x (Some (Pair h c)) enc
     = Inr ([0, 0, 0], Pair [[1]] [[2]], softmax (map (\<lambda>e. 0) enc))"
  by (simp add: forward_def ex_decoder_def hid_for_att_forward_def attention_def Let_def comp_def)

lemma ex_get_hidden:
  "get_hidden ex_decoder x (Some (Pair h c)) enc = Inr (Pair [[1]] [[2]])"
  by (simp add: get_hidden_def ex_decoder_def hid_for_att_get_hidden_def attention_def Let_def)

lemma ex_decoding: "decoding ex_lm x h = ([0, 0, 0], Pair [[3]] [[4]])"
  by (simp add: decoding_def ex_lm_def)

lemma ex_lm_get_hidden: "lm_get_hidden ex_lm x h = Pair [[3]] [[4]]"
  by (simp add: lm_get_hidden_def ex_lm_def)

lemma ex_expand_basenet1:
  "expand_basenet ex_model 1 enc (s, q, Some (Pair h c)) =
     Inr ([(s + - ln 3, q @ [0], Some (Pair [[1]] [[2]]))],
          [DecoderForward (last q) (Some (Pair h c))])"
  by (simp add: expand_basenet_def ex_model_fields ex_forward log_softmax_000 topk_uniform1
      state_of_def seq_of_def new_preds_def)

lemma ex_expand_shallow1:
  "expand_shallow ex_model ex_lm 1 enc (s, q, Some (Pair h c), l) =
     Inr ([(s + (- ln 3 + - ln 3), q @ [0], Some (Pair [[1]] [[2]]), Some (Pair [[3]] [[4]]))],
          [DecoderForward (last q) (Some (Pair h c)), LMDecoding (last q) l])"
  by (simp add: expand_shallow_def ex_model_fields ex_forward ex_decoding log_softmax_000
      tensor_add_def topk_uniform1 state_of_def seq_of_def new_preds_def Let_def)

lemma ex_fused: "fused_log_softmax ex_model (Pair [[1]] [[2]]) (Pair [[3]] [[4]]) = Inr [- ln 3, - ln 3, - ln 3]"
  by (simp add: fused_log_softmax_def hidden0_last_def ex_model_fields log_softmax_000)

lemma ex_expand_deep1:
  "expand_deep ex_model 1 enc (s, q, Some (Pair h c), l) =
     Inr ([(s + - ln 3, q @ [0], Some (Pair [[1]] [[2]]), Some (Pair [[3]] [[4]]))],
          [DecoderGetHidden (last q) (Some (Pair h c)), LMGetHidden (last q) l])"
  by (simp add: expand_deep_def ex_model_fields ex_get_hidden ex_lm_get_hidden ex_fused
      topk_uniform1 state_of_def seq_of_def new_preds_def Let_def)

lemma ex_basenet_run:
  "basenet_inference ex_model [1, 2, 0] 1 1 = Inr [[1, 0]]"
  by (simp add: basenet_inference_def basenet_inference_top_def ex_model_fields
      ex_expand_basenet1 beam_step_def sort_reverse_def py_slice_to_def end_flags_def seq_of_def)

lemma ex_shallow_run:
  "shallow_fuse_inference ex_model [1, 2, 0] 1 1 = Inr [[1, 0]]"
  by (simp add: shallow_fuse_inference_def shallow_fuse_inference_top_def ex_model_fields
      ex_expand_shallow1 beam_step_def sort_reverse_def py_slice_to_def end_flags_def seq_of_def)

lemma ex_deep_run:
  "deep_fuse_inference ex_model [1, 2, 0] 1 1 = Inr [[1, 0]]"
  by (simp add: deep_fuse_inference_def deep_fuse_inference_top_def ex_model_fields
      ex_expand_deep1 beam_step_def sort_reverse_def py_slice_to_def end_flags_def seq_of_def)

lemma ex_cur_basenet:
  "cur_pred_list (expand_basenet ex_model 1 ex_enc) 0 ex_beam
     = Inr ([(0, [1, 0], ex_state), (- 1 + - ln 3, [1, 1, 0], ex_state)],
            [DecoderForward 1 ex_state])"
  by (simp add: ex_beam_def ex_state_def ex_expand_basenet1 seq_of_def)

lemma ex_cur_shallow:
  "cur_pred_list (expand_shallow ex_model ex_lm 1 ex_enc) 0 ex_beam_fused
     = Inr ([(0, [1, 0], ex_state, None),
             (- 1 + (- ln 3 + - ln 3), [1, 1, 0], ex_state, Some (Pair [[3]] [[4]]))],
            [DecoderForward 1 ex_state, LMDecoding 1 None])"
  by (simp add: ex_beam_fused_def ex_state_def ex_expand_shallow1 seq_of_def)

lemma ex_cur_deep:
  "cur_pred_list (expand_deep ex_model 1 ex_enc) 0 ex_beam_fused
     = Inr ([(0, [1, 0], ex_state, None),
             (- 1 + - ln 3, [1, 1, 0], ex_state, Some (Pair [[3]] [[4]]))],
            [DecoderGetHidden 1 ex_state, LMGetHidden 1 None])"
  by (simp add: ex_beam_fused_def ex_state_def ex_expand_deep1 seq_of_def)

lemma ex_expand_basenet2:
  "expand_basenet ex_model 2 enc (s, q, Some (Pair h c)) =
     Inr ([(s + - ln 3, q @ [0], ex_state), (s + - ln 3, q @ [1], ex_state)],
          [DecoderForward (last q) (Some (Pair h c))])"
  by (simp add: expand_basenet_def ex_model_fields ex_forward log_softmax_000 topk_uniform2
      state_of_def seq_of_def new_preds_def upt_rec ex_state_def)

lemma ex_cur_reorder:
  "cur_pred_list (expand_basenet ex_model 2 enc) 1
      [(- ln 3, [0, 0], ex_state), (- ln 3, [0, 1], ex_state)]
     = Inr ([(- ln 3 + - ln 3, [0, 0, 0], ex_state), (- ln 3 + - ln 3, [0, 0, 1], ex_state),
             (- ln 3, [0, 1], ex_state)],
            [DecoderForward 0 ex_state])"
  by (simp add: ex_expand_basenet2 [unfolded ex_state_def] seq_of_def ex_state_def
      del: One_nat_def)

lemma ex_step_first:
  "beam_step (expand_basenet ex_model 2 enc) 1 2 [(0, [0], Some (Pair [[0]] [[0]]))]
     = Inr ([(- ln 3, [0, 0], ex_state), (- ln 3, [0, 1], ex_state)],
            [DecoderForward 0 (Some (Pair [[0]] [[0]]))])"
  by (simp add: beam_step_def ex_expand_basenet2 seq_of_def sort_reverse_def avg_score_def
      py_slice_to_def del: One_nat_def)

lemma ex_step_reorder:
  "beam_step (expand_basenet ex_model 2 enc) 1 2
      [(- ln 3, [0, 0], ex_state), (- ln 3, [0, 1], ex_state)]
     = Inr ([(- ln 3, [0, 1], ex_state), (- ln 3 + - ln 3, [0, 0, 0], ex_state)],
            [DecoderForward 0 ex_state])"
  unfolding beam_step_def ex_cur_reorder
  by (simp add: sort_reverse_def avg_score_def py_slice_to_def del: One_nat_def)

lemma ex_basenet_top_reorder:
  "basenet_inference_top ex_model [0, 1] 2 2
     = Inr ([(- ln 3, [0, 1], ex_state), (- ln 3 + - ln 3, [0, 0, 0], ex_state)],
            [DecoderForward 0 (Some (Pair [[0]] [[0]])), DecoderForward 0 ex_state])"
  by (simp add: basenet_inference_top_def ex_model_fields numeral_2_eq_2
      ex_step_first ex_step_reorder end_flags_def seq_of_def del: One_nat_def)

lemma ex_shallow_top:
  "shallow_fuse_inference_top ex_model [1, 2, 0] 1 1
     = Inr ([(- ln 3 + - ln 3, [1, 0], ex_state, Some (Pair [[3]] [[4]]))],
            [DecoderForward 1 (Some (Pair [[0]] [[0]])), LMDecoding 1 None])"
  by (simp add: shallow_fuse_inference_top_def ex_model_fields ex_expand_shallow1
      beam_step_def sort_reverse_def py_slice_to_def end_flags_def seq_of_def ex_state_def)

lemma ex_deep_top:
  "deep_fuse_inference_top ex_model [1, 2, 0] 1 1
     = Inr ([(- ln 3, [1, 0], ex_state, Some (Pair [[3]] [[4]]))],
            [DecoderGetHidden 1 (Some (Pair [[0]] [[0]])), LMGetHidden 1 None])"
  by (simp add: deep_fuse_inference_top_def ex_model_fields ex_expand_deep1
      beam_step_def sort_reverse_def py_slice_to_def end_flags_def seq_of_def ex_state_def)

lemma ex_peak_fields:
  "encoder ex_model_peak src = (map (\<lambda>t. [real t]) src, Pair [[0]] [[0]])"
  "pass_enc2dec_hid ex_model_peak = True"
  by (simp_all add: ex_model_peak_def ex_model_def)

lemma ex_peak_forward:
  "forward (decoder ex_model_peak) x (Some (Pair h c)) enc
     = Inr ([1, 0, 0], Pair [[1]] [[2]], softmax (map (\<lambda>e. 0) enc))"
  by (simp add: ex_model_peak_def forward_def ex_decoder_def hid_for_att_forward_def
      attention_def Let_def comp_def)

lemma log_softmax_100:
  "log_softmax [1, 0, 0] = [1 - ln (exp 1 + 2), - ln (exp 1 + 2), - ln (exp 1 + 2)]"
  by (simp add: log_softmax_def)

lemma topk_peak1: "b < a \<Longrightarrow> topk [a, b, b] 1 = Inr [(a, 0)]"
  by (simp add: topk_def upt_rec)

lemma ex_peak_expand1:
  "expand_basenet ex_model_peak 1 enc (s, q, Some (Pair h c)) =
     Inr ([(s + (1 - ln (exp 1 + 2)), q @ [0], ex_state)],
          [DecoderForward (last q) (Some (Pair h c))])"
  by (simp add: expand_basenet_def ex_peak_forward log_softmax_100 topk_peak1
      state_of_def seq_of_def new_preds_def ex_state_def)

lemma ex_peak_top:
  "basenet_inference_top ex_model_peak [1, 0] 1 1
     = Inr ([(1 - ln (exp 1 + 2), [1, 0], ex_state)],
            [DecoderForward 1 (Some (Pair [[0]] [[0]]))])"
  by (simp add: basenet_inference_top_def ex_peak_fields
      ex_peak_expand1 beam_step_def sort_reverse_def py_slice_to_def end_flags_def seq_of_def)

lemma ex_basenet_width0: "basenet_inference ex_model [1, 2, 0] 0 1 = Inr []"
  by (simp add: basenet_inference_def basenet_inference_top_def ex_model_fields
      expand_basenet_def ex_forward log_softmax_000 topk_0 new_preds_def state_of_def
      beam_step_def sort_reverse_def py_slice_to_def end_flags_def seq_of_def)

lemma ex_basenet_length0: "basenet_inference ex_model [1, 2, 0] 1 0 = Inr [[1]]"
  by (simp add: basenet_inference_def basenet_inference_top_def ex_model_fields seq_of_def)

lemma ex_shallow_length0: "shallow_fuse_inference ex_model [1, 2, 0] 7 0 = Inr [[1]]"
  by (simp add: shallow_fuse_inference_def shallow_fuse_inference_top_def ex_model_fields
      seq_of_def)

lemma ex_attention:
  "attention ex_decoder [5] [[1], [2]] [[1], [3]] = ([2, 5], [1 / 2, 1 / 2])"
  by (simp add: attention_def ex_decoder_def sum_axis0_def vadd_def vscale_def softmax_def
      Let_def)

lemma exp_minus1_half: "2 * exp (- 1 :: real) < 1"
proof -
  have "exp (- 1 :: real) < exp (- ln 2)" using ln_2_less_1 by simp
  also have "\<dots> = 1 / 2" by (simp add: exp_minus inverse_eq_divide)
  finally show ?thesis by simp
qed

lemma ex_unit_log_softmax:
  "log_softmax [ln (1 - 2 * exp (- 1)), - 1, - 1] = [ln (1 - 2 * exp (- 1)), - 1, - 1]"
proof -
  have "exp (ln (1 - 2 * exp (- 1 :: real))) = 1 - 2 * exp (- 1)"
    using exp_minus1_half by simp
  then have "exp (ln (1 - 2 * exp (- 1 :: real))) + (exp (- 1) + exp (- 1)) = 1" by simp
  then show ?thesis by (simp add: log_softmax_def)
qed

lemma ex_unit_decoding:
  "decoding ex_lm_unit x h = ([ln (1 - 2 * exp (- 1)), - 1, - 1], Pair [[3]] [[4]])"
  by (simp add: decoding_def ex_lm_unit_def)

lemma ex_unit_lm: "lm_decoder ex_model_unit = Some ex_lm_unit"
  by (simp add: ex_model_unit_def)

lemma ex_unit_log_probs: "lm_log_probs ex_model_unit [0, 1, 2] 50 = Inr [- 1, - 1]"
proof -
  have "\<forall>x h. \<forall>y \<in> set (tl [0::nat, 1, 2]). y < length (fst (decoding ex_lm_unit x h))"
    by (simp add: ex_unit_decoding)
  from lm_log_probs_replay [OF ex_unit_lm _ this, of 50] show ?thesis
    by (simp add: ex_unit_decoding ex_unit_log_softmax)
qed

section \<open>Claims\<close>

text \<open>
  C1. For beam_width \<open>\<ge> 1\<close> and max_tgt_sz \<open>\<ge> 1\<close>, the list of sequences returned by
  any of the three decode calls (\<open>basenet_inference\<close>, \<open>shallow_fuse_inference\<close>,
  \<open>deep_fuse_inference\<close>) has at most beam_width entries, and every returned sequence is
  non-empty and has the first token of the input (Start) as its first element.
\<close>

theorem decode_length_start:
  assumes "1 \<le> beam_width" and "1 \<le> max_tgt_sz"
      and "basenet_inference m src beam_width max_tgt_sz = Inr seqs
           \<or> shallow_fuse_inference m src beam_width max_tgt_sz = Inr seqs
           \<or> deep_fuse_inference m src beam_width max_tgt_sz = Inr seqs"
  shows "int (length seqs) \<le> beam_width \<and> (\<forall>q \<in> set seqs. q \<noteq> [] \<and> hd q = hd src)"
proof -
  have "length seqs \<le> nat beam_width \<and> (\<forall>q \<in> set seqs. q \<noteq> [] \<and> hd q = hd src)"
    using assms(3)
  proof (elim disjE)
    assume "basenet_inference m src beam_width max_tgt_sz = Inr seqs"
    then show ?thesis
      using basenet_inference_InrD decode_result [OF extends_seq_basenet _ assms(1)]
      by blast
  next
    assume "shallow_fuse_inference m src beam_width max_tgt_sz = Inr seqs"
    then show ?thesis
      using shallow_fuse_inference_InrD decode_result [OF extends_seq_shallow _ assms(1)]
      by blast
  next
    assume "deep_fuse_inference m src beam_width max_tgt_sz = Inr seqs"
    then show ?thesis
      using deep_fuse_inference_InrD decode_result [OF extends_seq_deep _ assms(1)]
      by blast
  qed
  then show ?thesis using assms(1) by auto
qed

theorem decode_length_start_witness:
  "(1::int) \<le> 1
   \<and> basenet_inference ex_model [1, 2, 0] 1 1 = Inr [[1, 0]]
   \<and> shallow_fuse_inference ex_model [1, 2, 0] 1 1 = Inr [[1, 0]]
   \<and> deep_fuse_inference ex_model [1, 2, 0] 1 1 = Inr [[1, 0]]
   \<and> int (length [[1::nat, 0]]) \<le> 1
   \<and> [1::nat, 0] \<noteq> [] \<and> hd [1::nat, 0] = hd [1::nat, 2, 0]"
  using decode_length_start [of 1 1 ex_model "[1, 2, 0]" "[[1, 0]]"]
    ex_basenet_run ex_shallow_run ex_deep_run
  by simp

text \<open>
  C2. After the pruning of every step of the beam search, the kept beam is sorted by
  cumulative score (the first component \<^verbatim>\<open>p_tup[0]\<close> of the tuples), best first, and
  hypotheses of equal score stand in the order in which they were put into the candidate
  list: for each score, the kept hypotheses of that score are an initial part of the
  candidates of that score. The step is the same for every expansion function, hence for
  the three decode calls; the beam each of them ends with is sorted as well.
\<close>

theorem kept_beam_sorted_stable:
  "(beam_step expand end_tok beam_width top_pred_list = Inr (kept, calls)
      \<and> cur_pred_list expand end_tok top_pred_list = Inr (cur, calls') \<longrightarrow>
        sorted_wrt (\<lambda>a b. fst b \<le> fst a) kept
        \<and> (\<forall>k. prefix (filter (\<lambda>p. fst p = k) kept) (filter (\<lambda>p. fst p = k) cur)))
   \<and> (basenet_inference_top m src bw mts = Inr (final_b, clog_b) \<longrightarrow>
        sorted_wrt (\<lambda>a b. fst b \<le> fst a) final_b)
   \<and> (shallow_fuse_inference_top m src bw mts = Inr (final_s, clog_s) \<longrightarrow>
        sorted_wrt (\<lambda>a b. fst b \<le> fst a) final_s)
   \<and> (deep_fuse_inference_top m src bw mts = Inr (final_d, clog_d) \<longrightarrow>
        sorted_wrt (\<lambda>a b. fst b \<le> fst a) final_d)"
proof (intro conjI impI allI)
  assume a: "beam_step expand end_tok beam_width top_pred_list = Inr (kept, calls)
      \<and> cur_pred_list expand end_tok top_pred_list = Inr (cur, calls')"
  with beam_step_InrD [of expand end_tok beam_width top_pred_list kept calls]
  have k: "kept = py_slice_to beam_width (sort_reverse cur)" by auto
  show "sorted_wrt (\<lambda>a b. fst b \<le> fst a) kept"
    unfolding k using pruned_sorted [of beam_width cur] by (simp only: score_desc_def)
  fix k' show "prefix (filter (\<lambda>p. fst p = k') kept) (filter (\<lambda>p. fst p = k') cur)"
    unfolding k by (rule pruned_stable)
next
  assume "basenet_inference_top m src bw mts = Inr (final_b, clog_b)"
  then have "score_desc final_b" by (rule basenet_top_sorted)
  then show "sorted_wrt (\<lambda>a b. fst b \<le> fst a) final_b" by (simp only: score_desc_def)
next
  assume "shallow_fuse_inference_top m src bw mts = Inr (final_s, clog_s)"
  then have "score_desc final_s" by (rule shallow_top_sorted)
  then show "sorted_wrt (\<lambda>a b. fst b \<le> fst a) final_s" by (simp only: score_desc_def)
next
  assume "deep_fuse_inference_top m src bw mts = Inr (final_d, clog_d)"
  then have "score_desc final_d" by (rule deep_top_sorted)
  then show "sorted_wrt (\<lambda>a b. fst b \<le> fst a) final_d" by (simp only: score_desc_def)
qed

theorem kept_beam_sorted_stable_witness:
  "beam_step (expand_basenet ex_model 2 ex_enc) 1 2
      [(- ln 3, [0, 0], ex_state), (- ln 3, [0, 1], ex_state)]
     = Inr ([(- ln 3, [0, 1], ex_state), (- ln 3 + - ln 3, [0, 0, 0], ex_state)],
            [DecoderForward 0 ex_state])
   \<and> cur_pred_list (expand_basenet ex_model 2 ex_enc) 1
      [(- ln 3, [0, 0], ex_state), (- ln 3, [0, 1], ex_state)]
     = Inr ([(- ln 3 + - ln 3, [0, 0, 0], ex_state), (- ln 3 + - ln 3, [0, 0, 1], ex_state),
             (- ln 3, [0, 1], ex_state)],
            [DecoderForward 0 ex_state])
   \<and> \<not> sorted_wrt (\<lambda>a b. fst b \<le> fst a)
         [(- ln 3 + - ln 3 :: real, [0::nat, 0, 0], ex_state), (- ln 3 + - ln 3, [0, 0, 1], ex_state),
          (- ln 3, [0, 1], ex_state)]
   \<and> sorted_wrt (\<lambda>a b. fst b \<le> fst a)
         [(- ln 3 :: real, [0::nat, 1], ex_state), (- ln 3 + - ln 3, [0, 0, 0], ex_state)]
   \<and> (\<forall>k. prefix
         (filter (\<lambda>p. fst p = k)
            [(- ln 3 :: real, [0::nat, 1], ex_state), (- ln 3 + - ln 3, [0, 0, 0], ex_state)])
         (filter (\<lambda>p. fst p = k)
            [(- ln 3 + - ln 3 :: real, [0, 0, 0], ex_state), (- ln 3 + - ln 3, [0, 0, 1], ex_state),
             (- ln 3, [0, 1], ex_state)]))
   \<and> basenet_inference_top ex_model [0, 1] 2 2
     = Inr ([(- ln 3, [0, 1], ex_state), (- ln 3 + - ln 3, [0, 0, 0], ex_state)],
            [DecoderForward 0 (Some (Pair [[0]] [[0]])), DecoderForward 0 ex_state])
   \<and> shallow_fuse_inference_top ex_model [1, 2, 0] 1 1
     = Inr ([(- ln 3 + - ln 3, [1, 0], ex_state, Some (Pair [[3]] [[4]]))],
            [DecoderForward 1 (Some (Pair [[0]] [[0]])), LMDecoding 1 None])
   \<and> sorted_wrt (\<lambda>a b. fst b \<le> fst a)
         [(- ln 3 + - ln 3 :: real, [1::nat, 0], ex_state, Some (Pair [[3]] [[4]]))]
   \<and> deep_fuse_inference_top ex_model [1, 2, 0] 1 1
     = Inr ([(- ln 3, [1, 0], ex_state, Some (Pair [[3]] [[4]]))],
            [DecoderGetHidden 1 (Some (Pair [[0]] [[0]])), LMGetHidden 1 None])
   \<and> sorted_wrt (\<lambda>a b. fst b \<le> fst a)
         [(- ln 3 :: real, [1::nat, 0], ex_state, Some (Pair [[3]] [[4]]))]"
proof -
  have unsorted: "\<not> sorted_wrt (\<lambda>a b. fst b \<le> fst a)
         [(- ln 3 + - ln 3 :: real, [0::nat, 0, 0], ex_state), (- ln 3 + - ln 3, [0, 0, 1], ex_state),
          (- ln 3, [0, 1], ex_state)]"
    by simp
  note a = kept_beam_sorted_stable
    [where expand = "expand_basenet ex_model 2 ex_enc" and end_tok = 1 and beam_width = 2
       and top_pred_list = "[(- ln 3, [0, 0], ex_state), (- ln 3, [0, 1], ex_state)]"
       and kept = "[(- ln 3, [0, 1], ex_state), (- ln 3 + - ln 3, [0, 0, 0], ex_state)]"
       and calls = "[DecoderForward 0 ex_state]"
       and cur = "[(- ln 3 + - ln 3, [0, 0, 0], ex_state), (- ln 3 + - ln 3, [0, 0, 1], ex_state),
             (- ln 3, [0, 1], ex_state)]"
       and calls' = "[DecoderForward 0 ex_state]"
       and m = ex_model and src = "[0, 1]" and bw = 2 and mts = 2
       and final_b = "[(- ln 3, [0, 1], ex_state), (- ln 3 + - ln 3, [0, 0, 0], ex_state)]"
       and clog_b = "[DecoderForward 0 (Some (Pair [[0]] [[0]])), DecoderForward 0 ex_state]"]
  note b = kept_beam_sorted_stable
    [where m = ex_model and src = "[1, 2, 0]" and bw = 1 and mts = 1
       and final_s = "[(- ln 3 + - ln 3, [1, 0], ex_state, Some (Pair [[3]] [[4]]))]"
       and clog_s = "[DecoderForward 1 (Some (Pair [[0]] [[0]])), LMDecoding 1 None]"
       and final_d = "[(- ln 3, [1, 0], ex_state, Some (Pair [[3]] [[4]]))]"
       and clog_d = "[DecoderGetHidden 1 (Some (Pair [[0]] [[0]])), LMGetHidden 1 None]"]
  from a b unsorted ex_step_reorder [of ex_enc] ex_cur_reorder [of ex_enc]
    ex_basenet_top_reorder ex_shallow_top ex_deep_top
  show ?thesis by blast
qed




text \<open>
  C4. A hypothesis of the beam whose sequence ends in the End token is put into the
  candidate list of the next step as it is (same score, sequence and states), and no
  step function is called on it: the calls a step makes are exactly those for the live
  hypotheses of the beam, in their order (one \<open>Decoder.forward\<close> each in the base search,
  a decoder call and an LM call each in the fused searches).
\<close>

theorem ended_hypothesis_carried:
  "(cur_pred_list expand end_tok beam = Inr (cur, calls) \<and> p \<in> set beam
      \<and> last (seq_of p) = end_tok \<longrightarrow> p \<in> set cur)
   \<and> (cur_pred_list (expand_basenet m bw enc) end_tok beam_b = Inr (cur_b, calls_b) \<longrightarrow>
        calls_b = concat (map (\<lambda>p. [DecoderForward (last (seq_of p)) (state_of p)])
                   (live end_tok beam_b)))
   \<and> (cur_pred_list (expand_shallow m l bw enc) end_tok beam_s = Inr (cur_s, calls_s) \<longrightarrow>
        calls_s = concat (map (\<lambda>p. [DecoderForward (last (seq_of p)) (fst (state_of p)),
                                       LMDecoding (last (seq_of p)) (snd (state_of p))])
                   (live end_tok beam_s)))
   \<and> (cur_pred_list (expand_deep m bw enc) end_tok beam_d = Inr (cur_d, calls_d) \<longrightarrow>
        calls_d = concat (map (\<lambda>p. [DecoderGetHidden (last (seq_of p)) (fst (state_of p)),
                                       LMGetHidden (last (seq_of p)) (snd (state_of p))])
                   (live end_tok beam_d)))"
proof (intro conjI impI)
  assume "cur_pred_list expand end_tok beam = Inr (cur, calls) \<and> p \<in> set beam
      \<and> last (seq_of p) = end_tok"
  then show "p \<in> set cur" using cur_pred_list_carries by blast
next
  assume "cur_pred_list (expand_basenet m bw enc) end_tok beam_b = Inr (cur_b, calls_b)"
  then show "calls_b = concat (map (\<lambda>p. [DecoderForward (last (seq_of p)) (state_of p)])
                   (live end_tok beam_b))"
    by (rule cur_pred_list_calls [rotated]) (rule expand_basenet_calls)
next
  assume "cur_pred_list (expand_shallow m l bw enc) end_tok beam_s = Inr (cur_s, calls_s)"
  then show "calls_s = concat (map (\<lambda>p. [DecoderForward (last (seq_of p)) (fst (state_of p)),
                                       LMDecoding (last (seq_of p)) (snd (state_of p))])
                   (live end_tok beam_s))"
    by (rule cur_pred_list_calls [rotated]) (rule expand_shallow_calls)
next
  assume "cur_pred_list (expand_deep m bw enc) end_tok beam_d = Inr (cur_d, calls_d)"
  then show "calls_d = concat (map (\<lambda>p. [DecoderGetHidden (last (seq_of p)) (fst (state_of p)),
                                       LMGetHidden (last (seq_of p)) (snd (state_of p))])
                   (live end_tok beam_d))"
    by (rule cur_pred_list_calls [rotated]) (rule expand_deep_calls)
qed

theorem ended_hypothesis_carried_witness:
  "cur_pred_list (expand_basenet ex_model 1 ex_enc) 0 ex_beam
     = Inr ([(0, [1, 0], ex_state), (- 1 + - ln 3, [1, 1, 0], ex_state)],
            [DecoderForward 1 ex_state])
   \<and> (0, [1, 0], ex_state) \<in> set ex_beam
   \<and> last (seq_of (0::real, [1::nat, 0], ex_state)) = 0
   \<and> (0, [1, 0], ex_state) \<in> set [(0, [1, 0], ex_state), (- 1 + - ln 3, [1, 1, 0], ex_state)]
   \<and> [DecoderForward 1 ex_state]
       = concat (map (\<lambda>p. [DecoderForward (last (seq_of p)) (state_of p)]) (live 0 ex_beam))
   \<and> cur_pred_list (expand_shallow ex_model ex_lm 1 ex_enc) 0 ex_beam_fused
     = Inr ([(0, [1, 0], ex_state, None),
             (- 1 + (- ln 3 + - ln 3), [1, 1, 0], ex_state, Some (Pair [[3]] [[4]]))],
            [DecoderForward 1 ex_state, LMDecoding 1 None])
   \<and> [DecoderForward 1 ex_state, LMDecoding 1 None]
       = concat (map (\<lambda>p. [DecoderForward (last (seq_of p)) (fst (state_of p)),
                              LMDecoding (last (seq_of p)) (snd (state_of p))])
                  (live 0 ex_beam_fused))
   \<and> cur_pred_list (expand_deep ex_model 1 ex_enc) 0 ex_beam_fused
     = Inr ([(0, [1, 0], ex_state, None),
             (- 1 + - ln 3, [1, 1, 0], ex_state, Some (Pair [[3]] [[4]]))],
            [DecoderGetHidden 1 ex_state, LMGetHidden 1 None])
   \<and> [DecoderGetHidden 1 ex_state, LMGetHidden 1 None]
       = concat (map (\<lambda>p. [DecoderGetHidden (last (seq_of p)) (fst (state_of p)),
                              LMGetHidden (last (seq_of p)) (snd (state_of p))])
                  (live 0 ex_beam_fused))"
  using ended_hypothesis_carried
    [where expand = "expand_basenet ex_model 1 ex_enc" and end_tok = 0 and beam = ex_beam
       and p = "(0, [1, 0], ex_state)" and m = ex_model and bw = 1 and enc = ex_enc
       and beam_b = ex_beam and l = ex_lm and beam_s = ex_beam_fused and beam_d = ex_beam_fused
       and cur = "[(0, [1, 0], ex_state), (- 1 + - ln 3, [1, 1, 0], ex_state)]"
       and calls = "[DecoderForward 1 ex_state]"
       and cur_b = "[(0, [1, 0], ex_state), (- 1 + - ln 3, [1, 1, 0], ex_state)]"
       and calls_b = "[DecoderForward 1 ex_state]"
       and cur_s = "[(0, [1, 0], ex_state, None),
             (- 1 + (- ln 3 + - ln 3), [1, 1, 0], ex_state, Some (Pair [[3]] [[4]]))]"
       and calls_s = "[DecoderForward 1 ex_state, LMDecoding 1 None]"
       and cur_d = "[(0, [1, 0], ex_state, None),
             (- 1 + - ln 3, [1, 1, 0], ex_state, Some (Pair [[3]] [[4]]))]"
       and calls_d = "[DecoderGetHidden 1 ex_state, LMGetHidden 1 None]"]
    ex_cur_basenet ex_cur_shallow ex_cur_deep
  by (simp add: ex_beam_def seq_of_def)

text \<open>
  C5. The attention step, for an encoder output of \<open>N \<ge> 1\<close> position vectors of one
  dimension \<open>D\<close> and a state of one or more layer vectors of one dimension \<open>H\<close>. The
  state enters only through the sum of its layers, component by component (a sum, not a
  mean and not the last layer). The weights are the softmax over the positions of the
  scores \<open>V (tanh (W1 e + W2 (sum of layers)))\<close>: there are \<open>N\<close> of them, none is negative
  and they add up to 1. The context vector, the front part of the returned vector, is
  the sum of the encoder vectors weighted by them; the embedded token follows it.
\<close>

theorem attention_sum_softmax:
  assumes "hidden \<noteq> []" and "\<forall>h \<in> set hidden. length h = H"
      and "enc_output \<noteq> []" and "\<forall>e \<in> set enc_output. length e = D"
      and "attention d x hidden enc_output = (attend_out, attention_weights)"
  shows "attention_weights
           = softmax (map (\<lambda>e. V d (map tanh
                (vadd (W1 d e) (W2 d (map (layer_sum hidden) [0..<H]))))) enc_output)
       \<and> length attention_weights = length enc_output
       \<and> (\<forall>w \<in> set attention_weights. 0 \<le> w)
       \<and> sum_list attention_weights = 1
       \<and> attend_out = map (weighted_sum attention_weights enc_output) [0..<D] @ x"
proof -
  let ?scores = "map (\<lambda>e. V d (map tanh
                (vadd (W1 d e) (W2 d (map (layer_sum hidden) [0..<H]))))) enc_output"
  from assms(5) have w0: "attention_weights = snd (attention d x hidden enc_output)"
    and a0: "attend_out = fst (attention d x hidden enc_output)" by simp_all
  have w: "attention_weights = softmax ?scores"
    unfolding w0 attention_weights_eq sum_axis0_pointwise [OF assms(1,2)] ..
  have ne: "?scores \<noteq> []" using assms(3) by simp
  have len: "length attention_weights = length enc_output"
    unfolding w by (simp add: length_softmax)
  have pos: "\<forall>w \<in> set attention_weights. 0 \<le> w"
  proof
    fix v assume "v \<in> set attention_weights"
    then obtain i where "i < length ?scores" "v = softmax ?scores ! i"
      unfolding w by (auto simp: in_set_conv_nth length_softmax)
    with softmax_pos [OF ne, of i] show "0 \<le> v" by simp
  qed
  have one: "sum_list attention_weights = 1"
    unfolding w using ne by (rule sum_list_softmax)
  have "attend_out = sum_axis0 (map2 vscale attention_weights enc_output) @ x"
    unfolding a0 w0 by (rule attention_out_eq)
  moreover have "sum_axis0 (map2 vscale attention_weights enc_output)
                   = map (weighted_sum attention_weights enc_output) [0..<D]"
  proof -
    let ?cs = "map2 vscale attention_weights enc_output"
    have c1: "?cs \<noteq> []" using assms(3) len by (cases attention_weights; cases enc_output) auto
    have c2: "\<forall>c \<in> set ?cs. length c = D"
      using assms(4) by (auto simp: vscale_def dest: set_zip_rightD)
    have "sum_axis0 ?cs = map (layer_sum ?cs) [0..<D]"
      using c1 c2 by (rule sum_axis0_pointwise)
    also have "\<dots> = map (weighted_sum attention_weights enc_output) [0..<D]"
      using layer_sum_scaled [OF assms(4)] by simp
    finally show ?thesis .
  qed
  ultimately have "attend_out = map (weighted_sum attention_weights enc_output) [0..<D] @ x"
    by simp
  with w len pos one show ?thesis by blast
qed

theorem attention_sum_softmax_witness:
  "[[1::real], [2]] \<noteq> [] \<and> list_all (\<lambda>h. length h = 1) [[1::real], [2]]
   \<and> [[1::real], [3]] \<noteq> [] \<and> list_all (\<lambda>e. length e = 1) [[1::real], [3]]
   \<and> attention ex_decoder [5] [[1], [2]] [[1], [3]] = ([2, 5], [1 / 2, 1 / 2])
   \<and> length [1 / 2, 1 / (2::real)] = length [[1::real], [3]]
   \<and> list_all (\<lambda>w. 0 \<le> w) [1 / 2, 1 / (2::real)]
   \<and> sum_list [1 / 2, 1 / (2::real)] = 1
   \<and> [2, 5] = map (weighted_sum [1 / 2, 1 / 2] [[1], [3]]) [0..<1] @ [5]"
proof -
  have h1: "[[1::real], [2]] \<noteq> []" by simp
  have h2: "\<forall>h \<in> set [[1::real], [2]]. length h = 1" by simp
  have h3: "[[1::real], [3]] \<noteq> []" by simp
  have h4: "\<forall>e \<in> set [[1::real], [3]]. length e = 1" by simp
  note c = attention_sum_softmax [OF h1 h2 h3 h4 ex_attention]
  from c have "length [1 / 2, 1 / (2::real)] = length [[1::real], [3]]" by blast
  moreover from c have "\<forall>w \<in> set [1 / 2, 1 / (2::real)]. 0 \<le> w" by blast
  then have "list_all (\<lambda>w. 0 \<le> w) [1 / 2, 1 / (2::real)]" by (simp only: list_all_iff)
  moreover from c have "sum_list [1 / 2, 1 / (2::real)] = 1" by blast
  moreover from c have "[2, 5] = map (weighted_sum [1 / 2, 1 / 2] [[1], [3]]) [0..<1] @ [5]"
    by blast
  ultimately show ?thesis using ex_attention by simp
qed

text \<open>
  C6. The LM heuristic on a supplied sequence of at least two tokens, all of them in the
  vocabulary of a configured language model. It returns the mean (the sum divided by the
  number of entries) of the replay: the log-probabilities \<open>log_softmax (LM logits)\<close> of
  each supplied next token, the model being fed the previous supplied token and its own
  state. The replay stops with the first next token that equals End, so it has one entry
  more than there are next tokens before that first End. When the model gives every
  supplied next token the log-probability \<open>- 1\<close>, as in the scenario \<open>[Start, a, End]\<close>,
  the value returned is \<open>- 1\<close>.
\<close>

theorem lm_heuristics_mean:
  assumes "lm_decoder m = Some l" and "2 \<le> length src"
      and "\<forall>x h. \<forall>y \<in> set (tl src). y < length (fst (decoding l x h))"
  shows "lm_heuristics m src max_tgt_sz
           = Inr (mean (lm_replay l (last src) (hd src) None (tl src)))
       \<and> length (lm_replay l (last src) (hd src) None (tl src))
           = Suc (length (takeWhile (\<lambda>y. y \<noteq> last src) (tl src)))
       \<and> ((\<forall>x h. \<forall>y \<in> set (tl src). log_softmax (fst (decoding l x h)) ! y = - 1) \<longrightarrow>
            lm_heuristics m src max_tgt_sz = Inr (- 1))"
proof (intro conjI impI)
  show r: "lm_heuristics m src max_tgt_sz
           = Inr (mean (lm_replay l (last src) (hd src) None (tl src)))"
    using assms by (rule lm_heuristics_replay)
  show "length (lm_replay l (last src) (hd src) None (tl src))
           = Suc (length (takeWhile (\<lambda>y. y \<noteq> last src) (tl src)))"
    using last_in_tl [OF assms(2)] by (rule length_lm_replay)
  assume c: "\<forall>x h. \<forall>y \<in> set (tl src). log_softmax (fst (decoding l x h)) ! y = - 1"
  from assms(2) have "tl src \<noteq> []" by (cases src) auto
  then have "lm_replay l (last src) (hd src) None (tl src) \<noteq> []" by (rule lm_replay_nonempty)
  moreover have "set (lm_replay l (last src) (hd src) None (tl src)) \<subseteq> {- 1}"
    using c by (rule lm_replay_const)
  ultimately have "mean (lm_replay l (last src) (hd src) None (tl src)) = - 1"
    by (rule mean_const)
  with r show "lm_heuristics m src max_tgt_sz = Inr (- 1)" by simp
qed

theorem lm_heuristics_mean_witness:
  "lm_decoder ex_model_unit = Some ex_lm_unit \<and> 2 \<le> length [0::nat, 1, 2]
   \<and> (\<forall>x h. list_all (\<lambda>y. y < length (fst (decoding ex_lm_unit x h))) (tl [0, 1, 2]))
   \<and> (\<forall>x h. list_all (\<lambda>y. log_softmax (fst (decoding ex_lm_unit x h)) ! y = - 1) (tl [0, 1, 2]))
   \<and> lm_heuristics ex_model_unit [0, 1, 2] 50
       = Inr (mean (lm_replay ex_lm_unit (last [0, 1, 2]) (hd [0, 1, 2]) None (tl [0, 1, 2])))
   \<and> length (lm_replay ex_lm_unit (last [0, 1, 2]) (hd [0, 1, 2]) None (tl [0, 1, 2]))
       = Suc (length (takeWhile (\<lambda>y. y \<noteq> last [0, 1, 2]) (tl [0::nat, 1, 2])))
   \<and> lm_heuristics ex_model_unit [0, 1, 2] 50 = Inr (- 1)"
proof -
  have h2: "2 \<le> length [0::nat, 1, 2]" by simp
  have h3: "\<forall>x h. \<forall>y \<in> set (tl [0::nat, 1, 2]). y < length (fst (decoding ex_lm_unit x h))"
    by (simp add: ex_unit_decoding)
  have h4: "\<forall>x h. \<forall>y \<in> set (tl [0::nat, 1, 2]).
              log_softmax (fst (decoding ex_lm_unit x h)) ! y = - 1"
    by (simp add: ex_unit_decoding ex_unit_log_softmax)
  note c = lm_heuristics_mean [OF ex_unit_lm h2 h3, of 50]
  from c h4 have "lm_heuristics ex_model_unit [0, 1, 2] 50 = Inr (- 1)" by blast
  moreover from c have "lm_heuristics ex_model_unit [0, 1, 2] 50
       = Inr (mean (lm_replay ex_lm_unit (last [0, 1, 2]) (hd [0, 1, 2]) None (tl [0, 1, 2])))"
    by blast
  moreover from c have
    "length (lm_replay ex_lm_unit (last [0, 1, 2]) (hd [0, 1, 2]) None (tl [0, 1, 2]))
       = Suc (length (takeWhile (\<lambda>y. y \<noteq> last [0, 1, 2]) (tl [0::nat, 1, 2])))"
    by blast
  moreover from h3 have
    "\<forall>x h. list_all (\<lambda>y. y < length (fst (decoding ex_lm_unit x h))) (tl [0, 1, 2])"
    by (simp only: list_all_iff)
  moreover from h4 have
    "\<forall>x h. list_all (\<lambda>y. log_softmax (fst (decoding ex_lm_unit x h)) ! y = - 1) (tl [0, 1, 2])"
    by (simp only: list_all_iff)
  ultimately show ?thesis using ex_unit_lm h2 by blast
qed

text \<open>
  C7. The claim: on an input whose only tokens are Start and End, \<open>[Start, End]\<close>, a
  decode call gives at once the trivial one-token sequence, with no decoder expansion.
  The searches have no such case. On \<open>[Start, End]\<close> with two different tokens the
  hypothesis \<open>[Start]\<close> has not ended and is expanded like any other: on the input
  \<open>[1, 0]\<close>, with beam_width 1, the network whose decoder prefers token \<open>0\<close> makes
  a decoder call on \<open>[Start]\<close> and returns the two-token sequence \<open>[1, 0]\<close>.
\<close>

theorem degenerate_input_counterexample:
  "basenet_inference_top ex_model_peak [1, 0] 1 1
     = Inr ([(1 - ln (exp 1 + 2), [1, 0], ex_state)],
            [DecoderForward 1 (Some (Pair [[0]] [[0]]))])
   \<and> basenet_inference ex_model_peak [1, 0] 1 1 = Inr [[1, 0]]"
  by (simp add: basenet_inference_def ex_peak_top seq_of_def del: One_nat_def)

text \<open>
  C7, as the code has it. When the first and the last token of the input are the same
  token (so for every one-token input) and beam_width \<open>\<ge> 1\<close>, the hypothesis \<open>[Start]\<close>
  counts as ended: each of the three decode calls returns exactly the one-token sequence
  \<open>[Start]\<close> and makes no call of a step function (the shallow search needs its language
  model to be present, which it asserts first).
\<close>

theorem degenerate_input_no_expansion:
  assumes "src \<noteq> []" and "hd src = last src" and "1 \<le> beam_width"
  shows "(\<exists>st. basenet_inference_top m src beam_width max_tgt_sz
                 = Inr ([(0, [hd src], st)], []))
       \<and> basenet_inference m src beam_width max_tgt_sz = Inr [[hd src]]
       \<and> (lm_decoder m \<noteq> None \<longrightarrow>
            (\<exists>st. shallow_fuse_inference_top m src beam_width max_tgt_sz
                    = Inr ([(0, [hd src], st)], []))
            \<and> shallow_fuse_inference m src beam_width max_tgt_sz = Inr [[hd src]])
       \<and> (\<exists>st. deep_fuse_inference_top m src beam_width max_tgt_sz
                 = Inr ([(0, [hd src], st)], []))
       \<and> deep_fuse_inference m src beam_width max_tgt_sz = Inr [[hd src]]"
proof -
  obtain enc hid where e: "encoder m src = (enc, hid)" by (cases "encoder m src")
  have b: "basenet_inference_top m src beam_width max_tgt_sz
        = Inr ([(0, [hd src], if pass_enc2dec_hid m then Some hid else None)], [])"
    unfolding basenet_inference_top_def using assms(1) e
    by (simp add: assms(2) beam_loop_ended_single [OF assms(3)])
  have d: "deep_fuse_inference_top m src beam_width max_tgt_sz
        = Inr ([(0, [hd src], if pass_enc2dec_hid m then Some hid else None, None)], [])"
    unfolding deep_fuse_inference_top_def using assms(1) e
    by (simp add: assms(2) beam_loop_ended_single [OF assms(3)])
  have s: "shallow_fuse_inference_top m src beam_width max_tgt_sz
        = Inr ([(0, [hd src], if pass_enc2dec_hid m then Some hid else None, None)], [])"
    if "lm_decoder m \<noteq> None"
  proof -
    from that obtain l where "lm_decoder m = Some l" by blast
    then show ?thesis
      unfolding shallow_fuse_inference_top_def using assms(1) e
      by (simp add: assms(2) beam_loop_ended_single [OF assms(3)])
  qed
  have b': "basenet_inference m src beam_width max_tgt_sz = Inr [[hd src]]"
    unfolding basenet_inference_def by (simp add: b seq_of_def)
  have d': "deep_fuse_inference m src beam_width max_tgt_sz = Inr [[hd src]]"
    unfolding deep_fuse_inference_def by (simp add: d seq_of_def)
  have s': "shallow_fuse_inference m src beam_width max_tgt_sz = Inr [[hd src]]"
    if "lm_decoder m \<noteq> None"
    unfolding shallow_fuse_inference_def by (simp add: s [OF that] seq_of_def)
  from b b' d d' s s' show ?thesis by blast
qed

theorem degenerate_input_no_expansion_witness:
  "[2::nat] \<noteq> [] \<and> hd [2::nat] = last [2] \<and> (1::int) \<le> 3
   \<and> basenet_inference ex_model [2] 3 5 = Inr [[2]]
   \<and> lm_decoder ex_model \<noteq> None
   \<and> shallow_fuse_inference ex_model [2] 3 5 = Inr [[2]]
   \<and> deep_fuse_inference ex_model [2] 3 5 = Inr [[2]]
   \<and> (\<exists>st. basenet_inference_top ex_model [2] 3 5 = Inr ([(0, [2], st)], []))
   \<and> (\<exists>st. shallow_fuse_inference_top ex_model [2] 3 5 = Inr ([(0, [2], st)], []))
   \<and> (\<exists>st. deep_fuse_inference_top ex_model [2] 3 5 = Inr ([(0, [2], st)], []))"
  using degenerate_input_no_expansion [of "[2]" 3 ex_model 5]
  by (simp add: ex_model_fields)

text \<open>
  C8. The claim: a decode call with beam_width \<open>< 1\<close> or max_tgt_sz \<open>< 1\<close> fails at once
  with a configuration error. The decode calls check neither argument. With
  beam_width \<open>= 0\<close> the concrete network returns the empty list, and with
  max_tgt_sz \<open>= 0\<close> it returns the sequence \<open>[Start]\<close>.
\<close>

theorem configuration_counterexample:
  "basenet_inference ex_model [1, 2, 0] 0 1 = Inr []
   \<and> basenet_inference ex_model [1, 2, 0] 1 0 = Inr [[1]]"
  using ex_basenet_width0 ex_basenet_length0 by simp

text \<open>
  C8, as the code has it. For a non-empty input: with max_tgt_sz \<open>< 1\<close> the loop is not
  entered and each decode call returns the single sequence \<open>[Start]\<close>, whatever
  beam_width is (the shallow search needs its language model to be present); with
  beam_width \<open>= 0\<close> and max_tgt_sz \<open>\<ge> 1\<close> a decode call that returns, returns the empty
  list.
\<close>

theorem no_width_or_length_check:
  assumes "src \<noteq> []"
  shows "(max_tgt_sz < 1 \<longrightarrow>
            basenet_inference m src beam_width max_tgt_sz = Inr [[hd src]]
            \<and> deep_fuse_inference m src beam_width max_tgt_sz = Inr [[hd src]]
            \<and> (lm_decoder m \<noteq> None \<longrightarrow>
                 shallow_fuse_inference m src beam_width max_tgt_sz = Inr [[hd src]]))
       \<and> (1 \<le> max_tgt_sz
            \<and> (basenet_inference m src 0 max_tgt_sz = Inr seqs
                \<or> shallow_fuse_inference m src 0 max_tgt_sz = Inr seqs
                \<or> deep_fuse_inference m src 0 max_tgt_sz = Inr seqs) \<longrightarrow> seqs = [])"
proof (intro conjI impI)
  assume "max_tgt_sz < 1"
  then have n: "nat max_tgt_sz = 0" by simp
  obtain enc hid where e: "encoder m src = (enc, hid)" by (cases "encoder m src")
  show "basenet_inference m src beam_width max_tgt_sz = Inr [[hd src]]"
    using assms e n by (simp add: basenet_inference_def basenet_inference_top_def seq_of_def)
  show "deep_fuse_inference m src beam_width max_tgt_sz = Inr [[hd src]]"
    using assms e n by (simp add: deep_fuse_inference_def deep_fuse_inference_top_def seq_of_def)
  assume "lm_decoder m \<noteq> None"
  then obtain l where "lm_decoder m = Some l" by blast
  then show "shallow_fuse_inference m src beam_width max_tgt_sz = Inr [[hd src]]"
    using assms e n
    by (simp add: shallow_fuse_inference_def shallow_fuse_inference_top_def seq_of_def)
next
  assume a: "1 \<le> max_tgt_sz
            \<and> (basenet_inference m src 0 max_tgt_sz = Inr seqs
                \<or> shallow_fuse_inference m src 0 max_tgt_sz = Inr seqs
                \<or> deep_fuse_inference m src 0 max_tgt_sz = Inr seqs)"
  then have m1: "1 \<le> max_tgt_sz" by blast
  from a have "basenet_inference m src 0 max_tgt_sz = Inr seqs
                \<or> shallow_fuse_inference m src 0 max_tgt_sz = Inr seqs
                \<or> deep_fuse_inference m src 0 max_tgt_sz = Inr seqs" by blast
  then show "seqs = []"
  proof (elim disjE)
    assume "basenet_inference m src 0 max_tgt_sz = Inr seqs"
    then show ?thesis using basenet_inference_InrD decode_width0 [OF m1] by blast
  next
    assume "shallow_fuse_inference m src 0 max_tgt_sz = Inr seqs"
    then show ?thesis using shallow_fuse_inference_InrD decode_width0 [OF m1] by blast
  next
    assume "deep_fuse_inference m src 0 max_tgt_sz = Inr seqs"
    then show ?thesis using deep_fuse_inference_InrD decode_width0 [OF m1] by blast
  qed
qed

theorem no_width_or_length_check_witness:
  "[1::nat, 2, 0] \<noteq> [] \<and> (0::int) < 1 \<and> lm_decoder ex_model \<noteq> None
   \<and> basenet_inference ex_model [1, 2, 0] 7 0 = Inr [[hd [1, 2, 0]]]
   \<and> deep_fuse_inference ex_model [1, 2, 0] 7 0 = Inr [[hd [1, 2, 0]]]
   \<and> shallow_fuse_inference ex_model [1, 2, 0] 7 0 = Inr [[hd [1, 2, 0]]]
   \<and> (1::int) \<le> 1
   \<and> basenet_inference ex_model [1, 2, 0] 0 1 = Inr []"
  using no_width_or_length_check [of "[1, 2, 0]" 0 ex_model 7]
    no_width_or_length_check [of "[1, 2, 0]" 1 ex_model 7 "[]"]
    ex_basenet_width0
  by (simp add: ex_model_fields)

text \<open>
  C9. For an LSTM decoder and a present state \<open>(h_n, c_n)\<close>: \<open>Decoder.forward\<close>, the
  path that gives the output distribution, is the common step with the attention
  conditioned on \<open>c_n\<close> (index 1, the cell part), followed by the projection \<open>fc\<close>;
  \<open>Decoder.get_hidden\<close>, the path deep fusion uses, is the same step with the attention
  conditioned on \<open>h_n\<close> (index 0, the hidden part), and returns the new state. This
  holds for every token, state and encoder output.
\<close>

theorem attention_state_asymmetry:
  assumes "dec_rnn_type d = lstm"
  shows "forward d x (Some (Pair h_n c_n)) enc_output
           = (case decode_path d c_n x (Some (Pair h_n c_n)) enc_output of
                (output, hidden', aw) \<Rightarrow> Inr (fc d output, hidden', aw))
       \<and> get_hidden d x (Some (Pair h_n c_n)) enc_output
           = (case decode_path d h_n x (Some (Pair h_n c_n)) enc_output of
                (output, hidden', aw) \<Rightarrow> Inr hidden')"
proof
  show "forward d x (Some (Pair h_n c_n)) enc_output
           = (case decode_path d c_n x (Some (Pair h_n c_n)) enc_output of
                (output, hidden', aw) \<Rightarrow> Inr (fc d output, hidden', aw))"
    using assms
    by (simp add: forward_def hid_for_att_forward_def decode_path_def Let_def
        split: prod.splits)
  show "get_hidden d x (Some (Pair h_n c_n)) enc_output
           = (case decode_path d h_n x (Some (Pair h_n c_n)) enc_output of
                (output, hidden', aw) \<Rightarrow> Inr hidden')"
    using assms
    by (simp add: get_hidden_def hid_for_att_get_hidden_def decode_path_def Let_def
        split: prod.splits)
qed

theorem attention_state_asymmetry_witness:
  "dec_rnn_type ex_decoder = lstm
   \<and> forward ex_decoder 1 (Some (Pair [[5]] [[7]])) ex_enc
       = (case decode_path ex_decoder [[7]] 1 (Some (Pair [[5]] [[7]])) ex_enc of
            (output, hidden', aw) \<Rightarrow> Inr (fc ex_decoder output, hidden', aw))
   \<and> get_hidden ex_decoder 1 (Some (Pair [[5]] [[7]])) ex_enc
       = (case decode_path ex_decoder [[5]] 1 (Some (Pair [[5]] [[7]])) ex_enc of
            (output, hidden', aw) \<Rightarrow> Inr hidden')"
  using attention_state_asymmetry [of ex_decoder 1 "[[5]]" "[[7]]" ex_enc]
  by (simp add: ex_decoder_def)

text \<open>
  C10. The LM heuristic does not use its argument max_tgt_sz (it is rebound to the length
  of the sequence), and it scores at most \<open>length src - 1\<close> steps. On a sequence of
  length 1 the loop does not run, no log-probability is accumulated, and the final
  division fails with \<open>ZeroDivisionError\<close>. On a sequence of length \<open>\<ge> 2\<close> that error
  cannot occur, and with a configured language model and in-vocabulary tokens the call
  returns a value.
\<close>

theorem lm_heuristics_precondition:
  "lm_heuristics m src max_tgt_sz = lm_heuristics m src max_tgt_sz'
   \<and> (lm_log_probs m src max_tgt_sz = Inr log_probs \<longrightarrow> length log_probs \<le> length src - 1)
   \<and> (length src = 1 \<longrightarrow>
        lm_log_probs m src max_tgt_sz = Inr []
        \<and> lm_heuristics m src max_tgt_sz = Inl ZeroDivisionError)
   \<and> (2 \<le> length src \<longrightarrow> lm_heuristics m src max_tgt_sz \<noteq> Inl ZeroDivisionError)
   \<and> (2 \<le> length src \<and> lm_decoder m = Some l
        \<and> (\<forall>x h. \<forall>y \<in> set (tl src). y < length (fst (decoding l x h))) \<longrightarrow>
        (\<exists>prob. lm_heuristics m src max_tgt_sz = Inr prob))"
proof (intro conjI impI)
  show "lm_heuristics m src max_tgt_sz = lm_heuristics m src max_tgt_sz'"
    unfolding lm_heuristics_def
    by (simp only: lm_log_probs_ignores [of m src max_tgt_sz max_tgt_sz'])
next
  assume "lm_log_probs m src max_tgt_sz = Inr log_probs"
  then show "length log_probs \<le> length src - 1" using lm_log_probs_length by blast
next
  assume a: "length src = 1"
  then show "lm_log_probs m src max_tgt_sz = Inr []" by (rule lm_log_probs_single)
  then show "lm_heuristics m src max_tgt_sz = Inl ZeroDivisionError"
    by (simp add: lm_heuristics_def)
next
  assume a: "2 \<le> length src"
  show "lm_heuristics m src max_tgt_sz \<noteq> Inl ZeroDivisionError"
  proof (cases "lm_log_probs m src max_tgt_sz")
    case (Inl e)
    then have "e \<noteq> ZeroDivisionError"
    proof -
      have "lm_loop lmd src' e' ts x h acc \<noteq> Inl ZeroDivisionError" for lmd src' e' ts x h acc
        by (induction ts arbitrary: x h acc)
          (auto simp: Let_def split: option.splits prod.splits)
      with Inl show ?thesis by (auto simp: lm_log_probs_def split: if_splits)
    qed
    with Inl show ?thesis by (simp add: lm_heuristics_def)
  next
    case (Inr lps)
    with lm_log_probs_length [OF Inr] a show ?thesis by (simp add: lm_heuristics_def)
  qed
next
  assume "2 \<le> length src \<and> lm_decoder m = Some l
        \<and> (\<forall>x h. \<forall>y \<in> set (tl src). y < length (fst (decoding l x h)))"
  then show "\<exists>prob. lm_heuristics m src max_tgt_sz = Inr prob"
    using lm_heuristics_replay by blast
qed

theorem lm_heuristics_precondition_witness:
  "lm_heuristics ex_model_unit [0, 1, 2] 50 = lm_heuristics ex_model_unit [0, 1, 2] 3
   \<and> lm_log_probs ex_model_unit [0, 1, 2] 50 = Inr [- 1, - 1]
   \<and> length [- 1, - 1 :: real] \<le> length [0::nat, 1, 2] - 1
   \<and> length [0::nat] = 1
   \<and> lm_log_probs ex_model_unit [0] 50 = Inr []
   \<and> lm_heuristics ex_model_unit [0] 50 = Inl ZeroDivisionError
   \<and> 2 \<le> length [0::nat, 1, 2]
   \<and> lm_heuristics ex_model_unit [0, 1, 2] 50 \<noteq> Inl ZeroDivisionError
   \<and> lm_decoder ex_model_unit = Some ex_lm_unit
   \<and> (\<forall>x h. list_all (\<lambda>y. y < length (fst (decoding ex_lm_unit x h))) (tl [0, 1, 2]))
   \<and> (\<exists>prob. lm_heuristics ex_model_unit [0, 1, 2] 50 = Inr prob)"
proof -
  have h1: "length [0::nat] = 1" by simp
  have h2: "2 \<le> length [0::nat, 1, 2]" by simp
  have h3: "\<forall>x h. \<forall>y \<in> set (tl [0::nat, 1, 2]). y < length (fst (decoding ex_lm_unit x h))"
    by (simp add: ex_unit_decoding)
  note a = lm_heuristics_precondition
    [of ex_model_unit "[0, 1, 2]" 50 3 "[- 1, - 1]" ex_lm_unit]
  note b = lm_heuristics_precondition [of ex_model_unit "[0]" 50 50 "[]" ex_lm_unit]
  from a have "lm_heuristics ex_model_unit [0, 1, 2] 50 = lm_heuristics ex_model_unit [0, 1, 2] 3"
    by blast
  moreover from a ex_unit_log_probs
  have "length [- 1, - 1 :: real] \<le> length [0::nat, 1, 2] - 1" by blast
  moreover from b h1 have "lm_log_probs ex_model_unit [0] 50 = Inr []
      \<and> lm_heuristics ex_model_unit [0] 50 = Inl ZeroDivisionError" by blast
  moreover from a h2 have "lm_heuristics ex_model_unit [0, 1, 2] 50 \<noteq> Inl ZeroDivisionError"
    by blast
  moreover from a h2 h3 ex_unit_lm
  have "\<exists>prob. lm_heuristics ex_model_unit [0, 1, 2] 50 = Inr prob" by blast
  moreover from h3 have
    "\<forall>x h. list_all (\<lambda>y. y < length (fst (decoding ex_lm_unit x h))) (tl [0, 1, 2])"
    by (simp only: list_all_iff)
  ultimately show ?thesis using ex_unit_log_probs h1 h2 ex_unit_lm by blast
qed

end
